theory Spec2Isabelle
  imports Main
begin

section \<open>Python values used by the adapter\<close>

text \<open>
  A Python \<open>str\<close> is modelled as a \<open>string\<close>: a list of characters, each one code point in
  the range 0..255. The two line separators U+2028 and U+2029 and the white space above
  U+00FF lie outside this range; every other character class of the source is covered.
  Exceptions are values: a function that can raise returns \<open>exn + 'a\<close>, \<open>Inl\<close> the
  exception.
\<close>

datatype exn =
    IndexError
  | DuckDbError string
  | HarlequinConnectionError string string

definition seq :: "exn + 'a \<Rightarrow> ('a \<Rightarrow> exn + 'b) \<Rightarrow> exn + 'b" where
  "seq r f = (case r of Inl e \<Rightarrow> Inl e | Inr v \<Rightarrow> f v)"

definition py_nth :: "'a list \<Rightarrow> nat \<Rightarrow> exn + 'a" where
  \<comment> \<open>\<open>xs[i]\<close> for a non-negative index: IndexError out of range.\<close>
  "py_nth xs i = (if i < length xs then Inr (xs ! i) else Inl IndexError)"

definition is_space :: "char \<Rightarrow> bool" where
  \<comment> \<open>\<open>str.isspace\<close> on one code point below 256.\<close>
  "is_space c = (c \<in> set [CHR 0x09, CHR 0x0A, CHR 0x0B, CHR 0x0C, CHR 0x0D,
                           CHR 0x1C, CHR 0x1D, CHR 0x1E, CHR 0x1F, CHR 0x20,
                           CHR 0x85, CHR 0xA0])"

definition is_linebreak :: "char \<Rightarrow> bool" where
  \<comment> \<open>The line boundaries of \<open>str.splitlines\<close> below 256.\<close>
  "is_linebreak c = (c \<in> set [CHR 0x0A, CHR 0x0B, CHR 0x0C, CHR 0x0D,
                               CHR 0x1C, CHR 0x1D, CHR 0x1E, CHR 0x85])"

definition strip :: "string \<Rightarrow> string" where
  \<comment> \<open>\<open>s.strip()\<close>\<close>
  "strip s = rev (dropWhile is_space (rev (dropWhile is_space s)))"

definition startswith :: "string \<Rightarrow> string \<Rightarrow> bool" where
  \<comment> \<open>\<open>s.startswith(p)\<close>\<close>
  "startswith s p = (take (length p) s = p)"

definition endswith :: "string \<Rightarrow> string \<Rightarrow> bool" where
  \<comment> \<open>\<open>s.endswith(p)\<close>\<close>
  "endswith s p = (length p \<le> length s \<and> drop (length s - length p) s = p)"

fun join :: "string \<Rightarrow> string list \<Rightarrow> string" where
  \<comment> \<open>\<open>sep.join(xs)\<close>\<close>
  "join sep [] = []"
| "join sep [x] = x"
| "join sep (x # y # ys) = x @ sep @ join sep (y # ys)"

fun split_on :: "char \<Rightarrow> string \<Rightarrow> string list" where
  \<comment> \<open>\<open>s.split(sep)\<close> for a separator of one character: empty pieces are kept.\<close>
  "split_on sep [] = [[]]"
| "split_on sep (c # cs) =
     (if c = sep then [] # split_on sep cs
      else (case split_on sep cs of [] \<Rightarrow> [[c]] | w # ws \<Rightarrow> (c # w) # ws))"

function split_ws :: "string \<Rightarrow> string list" where
  \<comment> \<open>\<open>s.split()\<close>: the maximal runs of characters that are not white space.\<close>
  "split_ws s =
     (let s' = dropWhile is_space s
      in if s' = [] then []
         else takeWhile (\<lambda>c. \<not> is_space c) s' # split_ws (dropWhile (\<lambda>c. \<not> is_space c) s'))"
  by pat_completeness auto
termination
proof (relation "measure length")
  fix s s' :: string
  assume s': "s' = dropWhile is_space s" and ne: "s' \<noteq> []"
  from ne obtain c r where cr: "s' = c # r" by (cases s') auto
  have "\<not> is_space (hd s')"
    using s' ne hd_dropWhile by metis
  then have "dropWhile (\<lambda>c. \<not> is_space c) s' = dropWhile (\<lambda>c. \<not> is_space c) r"
    by (simp add: cr)
  moreover have "length (dropWhile (\<lambda>c. \<not> is_space c) r) \<le> length r"
    by (rule length_dropWhile_le)
  moreover have "length r < length s'" by (simp add: cr)
  moreover have "length s' \<le> length s"
    unfolding s' by (rule length_dropWhile_le)
  ultimately show "(dropWhile (\<lambda>c. \<not> is_space c) s', s) \<in> measure length"
    by simp
qed simp

declare split_ws.simps [simp del]

definition skip_break :: "string \<Rightarrow> string" where
  \<comment> \<open>Steps over the line boundary at the head of the text; CR LF is one boundary.\<close>
  "skip_break r =
     (case r of [] \<Rightarrow> []
      | c # r' \<Rightarrow> (if c = CHR 0x0D \<and> take 1 r' = [CHR 0x0A] then drop 1 r' else r'))"

function splitlines :: "string \<Rightarrow> string list" where
  \<comment> \<open>\<open>s.splitlines()\<close>: the lines without their boundaries; no line after a final boundary.\<close>
  "splitlines s =
     (if s = [] then []
      else takeWhile (\<lambda>c. \<not> is_linebreak c) s
             # splitlines (skip_break (dropWhile (\<lambda>c. \<not> is_linebreak c) s)))"
  by pat_completeness auto
termination
proof (relation "measure length")
  fix s :: string
  assume ne: "s \<noteq> []"
  let ?r = "dropWhile (\<lambda>c. \<not> is_linebreak c) s"
  have "length (skip_break ?r) < length s"
  proof (cases ?r)
    case Nil
    have "skip_break ?r = []" unfolding Nil by (simp add: skip_break_def)
    then show ?thesis using ne by (simp del: dropWhile_eq_Nil_conv)
  next
    case (Cons c r')
    have "length (skip_break ?r) \<le> length r'"
      unfolding Cons by (simp add: skip_break_def)
    also have "\<dots> < length ?r" unfolding Cons by simp
    also have "\<dots> \<le> length s" by (rule length_dropWhile_le)
    finally show ?thesis .
  qed
  then show "(skip_break ?r, s) \<in> measure length" by simp
qed simp

declare splitlines.simps [simp del]

section \<open>TypeNormalizer: \<open>DuckDbConnection._short_column_type\<close>\<close>

definition UNKNOWN_TYPE :: string where
  "UNKNOWN_TYPE = ''?''"

definition COLUMN_TYPE_MAPPING :: "string \<rightharpoonup> string" where
  "COLUMN_TYPE_MAPPING = map_of
     [(''SQLNULL'', [CHR 0x5C, CHR ''n'']),
      (''BOOLEAN'', ''t/f''),
      (''TINYINT'', ''#''),
      (''UTINYINT'', ''u#''),
      (''SMALLINT'', ''#''),
      (''USMALLINT'', ''u#''),
      (''INTEGER'', ''#''),
      (''UINTEGER'', ''u#''),
      (''BIGINT'', ''##''),
      (''UBIGINT'', ''u##''),
      (''HUGEINT'', ''###''),
      (''UUID'', ''uid''),
      (''FLOAT'', ''#.#''),
      (''DOUBLE'', ''#.#''),
      (''DATE'', ''d''),
      (''TIMESTAMP'', ''ts''),
      (''TIMESTAMP_MS'', ''ts''),
      (''TIMESTAMP_NS'', ''ts''),
      (''TIMESTAMP_S'', ''ts''),
      (''TIME'', ''t''),
      (''TIME_TZ'', ''ttz''),
      (''TIMESTAMP_TZ'', ''ttz''),
      (''TIMESTAMP WITH TIME ZONE'', ''ttz''),
      (''VARCHAR'', ''s''),
      (''BLOB'', ''0b''),
      (''BIT'', ''010''),
      (''INTERVAL'', ''|-|''),
      (''DECIMAL'', ''#.#''),
      (''REAL'', ''#.#''),
      (''STRUCT'', ''{}''),
      (''MAP'', ''{m}'')]"

definition RELATION_TYPE_MAPPING :: "string \<rightharpoonup> string" where
  "RELATION_TYPE_MAPPING = map_of
     [(''BASE TABLE'', ''t''),
      (''LOCAL TEMPORARY'', ''tmp''),
      (''VIEW'', ''v'')]"

definition dict_get :: "('k \<rightharpoonup> 'v) \<Rightarrow> 'k \<Rightarrow> 'v \<Rightarrow> 'v" where
  \<comment> \<open>\<open>d.get(k, default)\<close>\<close>
  "dict_get d k dflt = (case d k of None \<Rightarrow> dflt | Some v \<Rightarrow> v)"

definition short_relation_type :: "string \<Rightarrow> string" where
  "short_relation_type native_type = dict_get RELATION_TYPE_MAPPING native_type UNKNOWN_TYPE"

definition base_type :: "string \<Rightarrow> exn + string" where
  \<comment> \<open>\<open>str(native_type).split("(")[0].split("[")[0]\<close>\<close>
  "base_type native_type =
     seq (py_nth (split_on (CHR ''('') native_type) 0)
         (\<lambda>b. py_nth (split_on (CHR ''['') b) 0)"

definition short_column_type :: "string \<Rightarrow> exn + string" where
  "short_column_type native_type =
     seq (base_type native_type)
         (\<lambda>b. let short_base_type = dict_get COLUMN_TYPE_MAPPING b UNKNOWN_TYPE
              in if endswith native_type ''[]''
                 then Inr (''['' @ short_base_type @ '']'')
                 else Inr short_base_type)"

section \<open>Paths: \<open>pathlib.Path\<close>, POSIX flavour\<close>

text \<open>
  \<open>_rewrite_dot_open\<close> builds a \<open>Path\<close> from a script token and prints the path and its
  \<open>stem\<close>. The functions below follow the POSIX flavour of the standard library: the root is
  split off (\<open>posixpath.splitroot\<close>), the rest is cut at \<open>/\<close>, and empty and \<open>.\<close> components
  are discarded. The \<open>stem\<close> is the last component without its last suffix, a suffix being
  what follows a dot that is neither the first nor the last character of the component.
\<close>

definition splitroot :: "string \<Rightarrow> string \<times> string" where
  "splitroot p =
     (if take 1 p \<noteq> ''/'' then ([], p)
      else if take 1 (drop 1 p) \<noteq> ''/'' \<or> take 1 (drop 2 p) = ''/'' then (''/'', drop 1 p)
      else (take 2 p, drop 2 p))"

definition path_parts :: "string \<Rightarrow> string list" where
  "path_parts p =
     filter (\<lambda>x. x \<noteq> [] \<and> x \<noteq> ''.'') (split_on (CHR ''/'') (snd (splitroot p)))"

definition Path_str :: "string \<Rightarrow> string" where
  \<comment> \<open>\<open>str(Path(p))\<close>\<close>
  "Path_str p =
     (let s = fst (splitroot p) @ join ''/'' (path_parts p)
      in if s = [] then ''.'' else s)"

definition Path_name :: "string \<Rightarrow> string" where
  \<comment> \<open>\<open>Path(p).name\<close>\<close>
  "Path_name p = (let tail = path_parts p in if tail = [] then [] else last tail)"

definition rfind :: "char \<Rightarrow> string \<Rightarrow> int" where
  \<comment> \<open>\<open>s.rfind(c)\<close>: the highest index of \<open>c\<close>, or -1.\<close>
  "rfind c s =
     (if c \<in> set s then int (length s) - 1 - int (length (takeWhile (\<lambda>x. x \<noteq> c) (rev s)))
      else - 1)"

definition Path_stem :: "string \<Rightarrow> string" where
  \<comment> \<open>\<open>Path(p).stem\<close>\<close>
  "Path_stem p =
     (let name = Path_name p; i = rfind (CHR ''.'') name
      in if 0 < i \<and> i < int (length name) - 1 then take (nat i) name else name)"

section \<open>ScriptSplitter: \<open>DuckDbAdapter._split_script\<close>\<close>

definition nl :: string where
  "nl = [CHR 0x0A]"

fun scan_lines :: "string list \<Rightarrow> (nat \<times> string) list \<Rightarrow> nat \<Rightarrow> string list
                     \<Rightarrow> nat \<times> string list" where
  \<comment> \<open>The \<open>for j, line in enumerate(lines)\<close> loop, on the variables \<open>i\<close> and \<open>commands\<close>.\<close>
  "scan_lines lines [] i commands = (i, commands)"
| "scan_lines lines ((j, line) # rest) i commands =
     (if startswith line ''.''
      then scan_lines lines rest (j + 1)
             (commands @ [join nl (drop i (take j lines))] @ [line])
      else scan_lines lines rest i commands)"

definition split_script :: "string \<Rightarrow> string list" where
  "split_script script =
     (let lines = splitlines script;
          (i, commands) = scan_lines lines (enumerate 0 lines) 0 [];
          commands = commands @ [join nl (drop i lines)]
      in map strip (filter (\<lambda>command. command \<noteq> []) commands))"

text \<open>
  The splitter in the words of the specification: the lines since the last boundary are
  collected; a line whose first character is \<open>.\<close> emits their join and then itself; the end
  of the scan emits the join of the trailing lines.
\<close>

definition is_dot_line :: "string \<Rightarrow> bool" where
  "is_dot_line line = (case line of [] \<Rightarrow> False | c # _ \<Rightarrow> c = CHR ''.'')"

fun emit_commands :: "string list \<Rightarrow> string list \<Rightarrow> string list" where
  "emit_commands pending [] = [join nl pending]"
| "emit_commands pending (line # rest) =
     (if is_dot_line line then join nl pending # line # emit_commands [] rest
      else emit_commands (pending @ [line]) rest)"

section \<open>ScriptRewriter: \<open>_rewrite_dot_open\<close> and \<open>_rewrite_init_command\<close>\<close>

definition sq :: string where
  \<comment> \<open>The single quote of the f-string.\<close>
  "sq = [CHR 0x27]"

definition attach_sql :: "string \<Rightarrow> string \<Rightarrow> string" where
  \<comment> \<open>The f-string of \<open>_rewrite_dot_open\<close>, for an option text and the path token.\<close>
  "attach_sql option db_path =
     ''attach '' @ sq @ Path_str db_path @ sq @ option @ '' as '' @ Path_stem db_path
       @ ''; use '' @ Path_stem db_path @ '';''"

definition rewrite_dot_open :: "string \<Rightarrow> exn + string" where
  "rewrite_dot_open command =
     (let args = drop 1 (split_ws command)
      in if args = [] then Inr (''attach '' @ sq @ '':memory:'' @ sq @ ''; use memory;'')
         else seq (if length args = 2
                   then seq (py_nth args 0) (\<lambda>a0. Inr (a0 = ''--readonly''))
                   else Inr False)
                (\<lambda>readonly.
                   if readonly
                   then seq (py_nth args 1) (\<lambda>a1. Inr (attach_sql '' (READ_ONLY)'' a1))
                   else seq (py_nth args 0) (\<lambda>a0. Inr (attach_sql [] a0))))"

text \<open>
  A path of the specification's examples: relative, its components between \<open>/\<close> neither
  empty nor \<open>.\<close>.
\<close>

definition plain_path :: "string \<Rightarrow> bool" where
  "plain_path p = list_all (\<lambda>x. x \<noteq> [] \<and> x \<noteq> ''.'') (split_on (CHR ''/'') p)"

definition rewrite_init_command :: "string \<Rightarrow> exn + string" where
  "rewrite_init_command command =
     (if \<not> startswith command ''.'' then Inr command
      else if startswith command ''.open'' then rewrite_dot_open command
      else Inr [])"

section \<open>Session bootstrap: the initialization block of \<open>DuckDbAdapter.connect\<close>\<close>

text \<open>
  The engine is a parameter: \<open>connection.execute(cmd)\<close> takes the session state and a
  statement, and returns the state it leaves behind together with \<open>None\<close>, or with the
  message of the \<open>duckdb.Error\<close> it raises.
\<close>

type_synonym 'st engine = "'st \<Rightarrow> string \<Rightarrow> string option \<times> 'st"

record 'st DuckDbConnection =
  conn :: 'st
  init_message :: string

fun exec_statements :: "'st engine \<Rightarrow> string list \<Rightarrow> 'st \<Rightarrow> nat \<Rightarrow> exn option \<times> 'st \<times> nat" where
  \<comment> \<open>The inner loop \<open>for cmd in rewritten_command.split(";")\<close>.\<close>
  "exec_statements execute [] connection count = (None, connection, count)"
| "exec_statements execute (cmd # cmds) connection count =
     (if strip cmd \<noteq> []
      then (case execute connection cmd of
              (Some e, connection') \<Rightarrow> (Some (DuckDbError e), connection', count)
            | (None, connection') \<Rightarrow> exec_statements execute cmds connection' (count + 1))
      else exec_statements execute cmds connection count)"

fun run_commands :: "'st engine \<Rightarrow> string list \<Rightarrow> 'st \<Rightarrow> nat \<Rightarrow> exn option \<times> 'st \<times> nat" where
  \<comment> \<open>The outer loop \<open>for command in self._split_script(init_script)\<close>.\<close>
  "run_commands execute [] connection count = (None, connection, count)"
| "run_commands execute (command # commands) connection count =
     (case rewrite_init_command command of
        Inl x \<Rightarrow> (Some x, connection, count)
      | Inr rewritten_command \<Rightarrow>
          (case exec_statements execute (split_on (CHR '';'') rewritten_command) connection count of
             (Some x, connection', count') \<Rightarrow> (Some x, connection', count')
           | (None, connection', count') \<Rightarrow> run_commands execute commands connection' count'))"

fun str_nat :: "nat \<Rightarrow> string" where
  \<comment> \<open>\<open>str(n)\<close> for a count.\<close>
  "str_nat n =
     (if n < 10 then [char_of (48 + n)]
      else str_nat (n div 10) @ [char_of (48 + n mod 10)])"

declare str_nat.simps [simp del]

definition executed_message :: "nat \<Rightarrow> string \<Rightarrow> string" where
  "executed_message count init_path =
     (if count > 0
      then ''Executed '' @ str_nat count @ '' ''
             @ (if count = 1 then ''command'' else ''commands'') @ '' from '' @ init_path
      else [])"

definition connect_init :: "'st engine \<Rightarrow> string \<Rightarrow> bool \<Rightarrow> string \<Rightarrow> 'st
                              \<Rightarrow> (exn + 'st DuckDbConnection) \<times> 'st" where
  \<comment> \<open>From \<open>msg = ""\<close> to the \<open>return\<close> of \<open>connect\<close>, for the text \<open>_read_init_script\<close> returned.
      The second component is the session state the engine is left in.\<close>
  "connect_init execute init_path no_init init_script connection =
     (if \<not> no_init
      then (case run_commands execute (split_script init_script) connection 0 of
              (Some (DuckDbError e), connection', count) \<Rightarrow>
                (case py_nth init_script 0 of
                   Inl x \<Rightarrow> (Inl x, connection')
                 | Inr c \<Rightarrow>
                     (Inl (HarlequinConnectionError
                             (''Attempted to execute script at '' @ [c] @ nl @ e)
                             ''DuckDB could not execute your initialization script.''),
                      connection'))
            | (Some x, connection', count) \<Rightarrow> (Inl x, connection')
            | (None, connection', count) \<Rightarrow>
                (Inr \<lparr>conn = connection', init_message = executed_message count init_path\<rparr>,
                 connection'))
      else (Inr \<lparr>conn = connection, init_message = []\<rparr>, connection))"

text \<open>
  The bootstrap in the words of the specification: each command is rewritten, the result is
  cut at \<open>;\<close>, and the pieces whose trimmed form is not empty are the statements to execute.
\<close>

definition rewritten :: "string \<Rightarrow> string" where
  "rewritten command = (case rewrite_init_command command of Inl _ \<Rightarrow> [] | Inr r \<Rightarrow> r)"

definition statements_of :: "string \<Rightarrow> string list" where
  "statements_of command =
     filter (\<lambda>cmd. strip cmd \<noteq> []) (split_on (CHR '';'') (rewritten command))"

definition submitted :: "string \<Rightarrow> string list" where
  "submitted script = concat (map statements_of (split_script script))"

fun all_succeed :: "'st engine \<Rightarrow> string list \<Rightarrow> 'st \<Rightarrow> bool" where
  "all_succeed execute [] connection = True"
| "all_succeed execute (cmd # cmds) connection =
     (case execute connection cmd of
        (Some e, connection') \<Rightarrow> False
      | (None, connection') \<Rightarrow> all_succeed execute cmds connection')"

fun state_after :: "'st engine \<Rightarrow> string list \<Rightarrow> 'st \<Rightarrow> 'st" where
  "state_after execute [] connection = connection"
| "state_after execute (cmd # cmds) connection =
     state_after execute cmds (snd (execute connection cmd))"

section \<open>CatalogBuilder: \<open>DuckDbConnection.get_catalog\<close>\<close>

text \<open>
  Modelled from the spec: the class \<open>CatalogItem\<close> of \<open>harlequin.catalog\<close>, which is not among
  the source files; its attributes are those of section 3 of the specification, \<open>children\<close>
  empty by default.
\<close>

datatype CatalogItem =
  CatalogItem (qualified_identifier: string) (query_name: string) (label: string)
    (type_label: string) (children: "CatalogItem list")

text \<open>
  The four metadata queries are a parameter: each returns its rows, or the message of the
  \<open>duckdb.Error\<close> the engine raises.
\<close>

record metadata =
  show_databases :: "string + string list"
  schemata :: "string \<Rightarrow> string + string list"
  tables :: "string \<Rightarrow> string \<Rightarrow> string + (string \<times> string) list"
  columns :: "string \<Rightarrow> string \<Rightarrow> string \<Rightarrow> string + (string \<times> string) list"

definition fetchall :: "string + 'a \<Rightarrow> exn + 'a" where
  \<comment> \<open>\<open>cur.execute(...).fetchall()\<close>: the rows, or the engine's error raised as it is.\<close>
  "fetchall r = (case r of Inl msg \<Rightarrow> Inl (DuckDbError msg) | Inr rows \<Rightarrow> Inr rows)"

definition get_databases :: "metadata \<Rightarrow> exn + string list" where
  "get_databases src = fetchall (show_databases src)"

definition get_schemas :: "metadata \<Rightarrow> string \<Rightarrow> exn + string list" where
  "get_schemas src database = fetchall (schemata src database)"

definition get_tables :: "metadata \<Rightarrow> string \<Rightarrow> string \<Rightarrow> exn + (string \<times> string) list" where
  "get_tables src database schema = fetchall (tables src database schema)"

definition get_columns :: "metadata \<Rightarrow> string \<Rightarrow> string \<Rightarrow> string
                             \<Rightarrow> exn + (string \<times> string) list" where
  "get_columns src database schema table = fetchall (columns src database schema table)"

fun for_each :: "('a \<Rightarrow> exn + 'b) \<Rightarrow> 'a list \<Rightarrow> exn + 'b list" where
  \<comment> \<open>A loop that appends one item per row, in order, and stops at the first raise.\<close>
  "for_each f [] = Inr []"
| "for_each f (x # xs) = seq (f x) (\<lambda>y. seq (for_each f xs) (\<lambda>ys. Inr (y # ys)))"

definition quoted :: "string \<Rightarrow> string" where
  \<comment> \<open>The name between double quotes.\<close>
  "quoted name = [CHR 0x22] @ name @ [CHR 0x22]"

definition column_item :: "string \<Rightarrow> string \<times> string \<Rightarrow> exn + CatalogItem" where
  "column_item table_identifier col =
     seq (short_column_type (snd col))
       (\<lambda>tag. Inr (CatalogItem (table_identifier @ ''.'' @ quoted (fst col)) (quoted (fst col))
                     (fst col) tag []))"

definition table_item :: "metadata \<Rightarrow> string \<Rightarrow> string \<Rightarrow> string \<Rightarrow> string \<times> string
                            \<Rightarrow> exn + CatalogItem" where
  "table_item src database schema schema_identifier row =
     (let table = fst row; kind = snd row;
          table_identifier = schema_identifier @ ''.'' @ quoted table
      in seq (get_columns src database schema table)
           (\<lambda>columns. seq (for_each (column_item table_identifier) columns)
              (\<lambda>column_items.
                 Inr (CatalogItem table_identifier table_identifier table
                        (short_relation_type kind) column_items))))"

definition schema_item :: "metadata \<Rightarrow> string \<Rightarrow> string \<Rightarrow> string \<Rightarrow> exn + CatalogItem" where
  "schema_item src database database_identifier schema =
     (let schema_identifier = database_identifier @ ''.'' @ quoted schema
      in seq (get_tables src database schema)
           (\<lambda>tables. seq (for_each (table_item src database schema schema_identifier) tables)
              (\<lambda>table_items.
                 Inr (CatalogItem schema_identifier schema_identifier schema ''sch''
                        table_items))))"

definition database_item :: "metadata \<Rightarrow> string \<Rightarrow> exn + CatalogItem" where
  "database_item src database =
     (let database_identifier = quoted database
      in seq (get_schemas src database)
           (\<lambda>schemas. seq (for_each (schema_item src database database_identifier) schemas)
              (\<lambda>schema_items.
                 Inr (CatalogItem database_identifier database_identifier database ''db''
                        schema_items))))"

definition get_catalog :: "metadata \<Rightarrow> exn + CatalogItem list" where
  "get_catalog src = seq (get_databases src) (for_each (database_item src))"

text \<open>
  The queries a build issues all succeed: the database listing, the schema listing of every
  database it returns, the table listing of every schema, the column listing of every table.
\<close>

definition columns_ok :: "metadata \<Rightarrow> string \<Rightarrow> string \<Rightarrow> string \<times> string \<Rightarrow> bool" where
  "columns_ok src database schema row =
     (case columns src database schema (fst row) of Inl msg \<Rightarrow> False | Inr rows \<Rightarrow> True)"

definition tables_ok :: "metadata \<Rightarrow> string \<Rightarrow> string \<Rightarrow> bool" where
  "tables_ok src database schema =
     (case tables src database schema of
        Inl msg \<Rightarrow> False
      | Inr rows \<Rightarrow> list_all (columns_ok src database schema) rows)"

definition schemas_ok :: "metadata \<Rightarrow> string \<Rightarrow> bool" where
  "schemas_ok src database =
     (case schemata src database of
        Inl msg \<Rightarrow> False
      | Inr rows \<Rightarrow> list_all (tables_ok src database) rows)"

definition queries_succeed :: "metadata \<Rightarrow> bool" where
  "queries_succeed src =
     (case show_databases src of
        Inl msg \<Rightarrow> False
      | Inr rows \<Rightarrow> list_all (schemas_ok src) rows)"

definition raised_by :: "metadata \<Rightarrow> string \<Rightarrow> bool" where
  \<comment> \<open>\<open>msg\<close> is the message of an error that one of the four queries raises.\<close>
  "raised_by src msg =
     (show_databases src = Inl msg \<or> (\<exists>d. schemata src d = Inl msg) \<or>
      (\<exists>d s. tables src d s = Inl msg) \<or> (\<exists>d s t. columns src d s t = Inl msg))"

fun depth :: "CatalogItem \<Rightarrow> nat" where
  "depth (CatalogItem qi qn l t cs) = Suc (fold max (map depth cs) 0)"

definition one_table_source :: "string \<Rightarrow> string \<Rightarrow> string \<Rightarrow> string \<Rightarrow> string \<Rightarrow> metadata" where
  \<comment> \<open>One database, one schema, one base table, two columns: INTEGER and VARCHAR[].\<close>
  "one_table_source d s t c1 c2 =
     \<lparr>show_databases = Inr [d],
      schemata = (\<lambda>database. Inr (if database = d then [s] else [])),
      tables = (\<lambda>database schema.
                  Inr (if database = d \<and> schema = s then [(t, ''BASE TABLE'')] else [])),
      columns = (\<lambda>database schema table.
                   Inr (if database = d \<and> schema = s \<and> table = t
                        then [(c1, ''INTEGER''), (c2, ''VARCHAR[]'')] else []))\<rparr>"

section \<open>Facts about the Python string operations\<close>

lemma split_on_nonempty: "split_on sep s \<noteq> []"
  by (induction s) (auto split: list.splits)

lemma hd_split_on: "hd (split_on sep s) = takeWhile (\<lambda>c. c \<noteq> sep) s"
  by (induction s) (auto split: list.splits simp: split_on_nonempty)

lemma py_nth_0_split_on: "py_nth (split_on sep s) 0 = Inr (takeWhile (\<lambda>c. c \<noteq> sep) s)"
  using split_on_nonempty [of sep s] hd_split_on [of sep s]
  by (cases "split_on sep s") (auto simp: py_nth_def)

lemma strip_eq_Nil: "strip t = [] \<longleftrightarrow> (\<forall>c\<in>set t. is_space c)"
proof
  assume "strip t = []"
  then have a: "\<forall>x\<in>set (dropWhile is_space t). is_space x"
    by (simp add: strip_def)
  have "dropWhile is_space t = []"
  proof (rule ccontr)
    assume ne: "dropWhile is_space t \<noteq> []"
    then have "\<not> is_space (hd (dropWhile is_space t))" by (rule hd_dropWhile)
    moreover have "hd (dropWhile is_space t) \<in> set (dropWhile is_space t)"
      using ne by (rule hd_in_set)
    ultimately show False using a by blast
  qed
  then show "\<forall>c\<in>set t. is_space c" by simp
next
  assume "\<forall>c\<in>set t. is_space c"
  then show "strip t = []"
    by (auto simp: strip_def dest: set_dropWhileD)
qed

lemma strip_fixed:
  assumes "t = [] \<or> (\<not> is_space (hd t) \<and> \<not> is_space (last t))"
  shows "strip t = t"
proof (cases t)
  case Nil
  then show ?thesis by (simp add: strip_def)
next
  case (Cons a u)
  then have h: "\<not> is_space (hd t)" and l: "\<not> is_space (last t)" using assms by auto
  have 1: "dropWhile is_space t = t" using h Cons by simp
  obtain x xs where r: "rev t = x # xs" using Cons by (cases "rev t") auto
  then have "x = last t" using Cons by (metis hd_rev list.sel(1) list.distinct(1))
  then have "\<not> is_space x" using l by simp
  then have "dropWhile is_space (x # xs) = x # xs" by simp
  then have "rev (dropWhile is_space (rev t)) = rev (rev t)" unfolding r by (simp only:)
  then show ?thesis unfolding strip_def 1 by simp
qed

lemma strip_ends:
  assumes ne: "strip s \<noteq> []"
  shows "\<not> is_space (hd (strip s)) \<and> \<not> is_space (last (strip s))"
proof -
  let ?a = "dropWhile is_space s"
  let ?b = "dropWhile is_space (rev ?a)"
  have sb: "strip s = rev ?b" by (simp add: strip_def)
  have b: "?b \<noteq> []" using ne unfolding sb by simp
  have a: "?a \<noteq> []"
  proof
    assume "?a = []"
    then have "?b = []" by (simp del: dropWhile_eq_Nil_conv)
    then show False using b by blast
  qed
  have "\<not> is_space (hd ?b)" using b by (rule hd_dropWhile)
  moreover have "last (rev ?b) = hd ?b" using b by (simp only: last_rev)
  ultimately have l: "\<not> is_space (last (strip s))" unfolding sb by simp
  have ha: "\<not> is_space (hd ?a)" using a by (rule hd_dropWhile)
  obtain y ys where ay: "?a = y # ys" using a by (cases ?a) auto
  have y: "\<not> is_space y" using ha unfolding ay by simp
  have "rev ?a = rev ys @ [y]" unfolding ay by simp
  then have "?b = dropWhile is_space (rev ys @ [y])" by (simp only:)
  also have "\<dots> = dropWhile is_space (rev ys) @ [y]"
    using y by (simp add: dropWhile_append3)
  finally have "strip s = y # rev (dropWhile is_space (rev ys))"
    unfolding sb by simp
  then have "hd (strip s) = y" by simp
  then show ?thesis using y l by simp
qed

lemma strip_idem: "strip (strip s) = strip s"
  by (rule strip_fixed) (use strip_ends in blast)

lemma strip_snoc_space: "is_space c \<Longrightarrow> strip (xs @ [c]) = strip xs"
proof (cases "\<forall>x\<in>set xs. is_space x")
  case True
  assume "is_space c"
  then have "strip (xs @ [c]) = []" using True by (simp add: strip_eq_Nil)
  moreover have "strip xs = []" using True by (simp add: strip_eq_Nil)
  ultimately show ?thesis by simp
next
  case False
  assume c: "is_space c"
  from False obtain x where "x \<in> set xs" "\<not> is_space x" by blast
  then have "dropWhile is_space (xs @ [c]) = dropWhile is_space xs @ [c]"
    by (simp add: dropWhile_append1)
  then show ?thesis using c by (simp add: strip_def)
qed


section \<open>ScriptSplitter\<close>

lemma startswith_dot: "startswith line ''.'' = is_dot_line line"
  by (cases line) (auto simp: startswith_def is_dot_line_def)

lemma scan_lines_emit:
  "i \<le> j \<Longrightarrow>
   (case scan_lines lines (enumerate j (drop j lines)) i commands of
      (i', commands') \<Rightarrow> commands' @ [join nl (drop i' lines)])
   = commands @ emit_commands (drop i (take j lines)) (drop j lines)"
proof (induction "length lines - j" arbitrary: i j commands)
  case 0
  then have "drop j lines = []" by simp
  moreover have "take j lines = lines" using 0 by simp
  ultimately show ?case by simp
next
  case (Suc n)
  then have j: "j < length lines" by simp
  then have d: "drop j lines = lines ! j # drop (Suc j) lines"
    by (simp add: Cons_nth_drop_Suc)
  have n: "n = length lines - Suc j" using Suc.hyps(2) by simp
  show ?case
  proof (cases "is_dot_line (lines ! j)")
    case True
    have "(case scan_lines lines (enumerate (Suc j) (drop (Suc j) lines)) (Suc j)
                 (commands @ [join nl (drop i (take j lines))] @ [lines ! j]) of
             (i', commands') \<Rightarrow> commands' @ [join nl (drop i' lines)])
          = (commands @ [join nl (drop i (take j lines))] @ [lines ! j])
              @ emit_commands (drop (Suc j) (take (Suc j) lines)) (drop (Suc j) lines)"
      by (rule Suc.hyps(1) [OF n]) simp
    then show ?thesis
      using True by (simp add: d startswith_dot)
  next
    case False
    have t: "drop i (take (Suc j) lines) = drop i (take j lines) @ [lines ! j]"
      using j Suc.prems by (simp add: take_Suc_conv_app_nth)
    have "(case scan_lines lines (enumerate (Suc j) (drop (Suc j) lines)) i commands of
             (i', commands') \<Rightarrow> commands' @ [join nl (drop i' lines)])
          = commands @ emit_commands (drop i (take (Suc j) lines)) (drop (Suc j) lines)"
      by (rule Suc.hyps(1) [OF n]) (use Suc.prems in simp)
    then show ?thesis
      using False by (simp add: d startswith_dot t)
  qed
qed

lemma split_script_emit:
  "split_script script
     = map strip (filter (\<lambda>command. command \<noteq> []) (emit_commands [] (splitlines script)))"
proof -
  obtain i' cs where sc: "scan_lines (splitlines script) (enumerate 0 (splitlines script)) 0 [] = (i', cs)"
    by (cases "scan_lines (splitlines script) (enumerate 0 (splitlines script)) 0 []")
  have "cs @ [join nl (drop i' (splitlines script))] = emit_commands [] (splitlines script)"
    using scan_lines_emit [of 0 0 "splitlines script" "[]"] by (simp add: sc)
  then show ?thesis
    by (simp only: split_script_def Let_def sc prod.case)
qed

text \<open>
  C1. For every script, \<open>_split_script\<close> returns what the scan of the specification emits,
  trimmed and without the commands that are empty: a line whose first character is \<open>.\<close> emits
  the newline-join of the lines since the last boundary and then itself, and the end of the
  scan emits the join of the trailing lines. On the script of the specification's example it
  returns the three commands \<open>select 1;\<close>, \<open>.open foo.db\<close>, \<open>select 2;\<close> in that order.
\<close>

theorem split_script_scan:
  "split_script script
     = map strip (filter (\<lambda>command. command \<noteq> []) (emit_commands [] (splitlines script))) \<and>
   split_script ''select 1;\<newline>.open foo.db\<newline>select 2;''
     = [''select 1;'', ''.open foo.db'', ''select 2;'']"
proof
  show "split_script script
     = map strip (filter (\<lambda>command. command \<noteq> []) (emit_commands [] (splitlines script)))"
    by (rule split_script_emit)
  show "split_script ''select 1;\<newline>.open foo.db\<newline>select 2;''
     = [''select 1;'', ''.open foo.db'', ''select 2;'']"
    by code_simp
qed

lemma emit_no_dot:
  "\<forall>line\<in>set ls. \<not> is_dot_line line \<Longrightarrow> emit_commands pending ls = [join nl (pending @ ls)]"
  by (induction ls arbitrary: pending) auto

lemma splitlines_Nil: "splitlines s = [] \<longleftrightarrow> s = []"
  by (subst splitlines.simps) simp

lemma join_Cons: "join sep (x # xs) = (if xs = [] then x else x @ sep @ join sep xs)"
  by (cases xs) simp_all

lemma linebreak_is_space: "is_linebreak c \<Longrightarrow> is_space c"
  by (auto simp: is_linebreak_def is_space_def)

lemma join_splitlines_lf:
  "\<forall>c\<in>set s. is_linebreak c \<longrightarrow> c = CHR 0x0A \<Longrightarrow>
   join nl (splitlines s) = (if s \<noteq> [] \<and> last s = CHR 0x0A then butlast s else s)"
proof (induction s rule: splitlines.induct)
  case (1 s)
  show ?case
  proof (cases "s = []")
    case True
    then show ?thesis by (simp add: splitlines.simps)
  next
    case ne: False
    let ?line = "takeWhile (\<lambda>c. \<not> is_linebreak c) s"
    let ?r = "dropWhile (\<lambda>c. \<not> is_linebreak c) s"
    have s: "s = ?line @ ?r" by simp
    have sl: "splitlines s = ?line # splitlines (skip_break ?r)"
      using ne by (subst splitlines.simps) simp
    show ?thesis
    proof (cases ?r)
      case Nil
      then have all: "\<forall>c\<in>set s. \<not> is_linebreak c" by simp
      have "last s \<in> set s" using ne by simp
      then have "\<not> is_linebreak (last s)" using all by blast
      then have "last s \<noteq> CHR 0x0A" by (auto simp: is_linebreak_def)
      moreover have "join nl (splitlines s) = s"
        using sl s unfolding Nil by (simp add: skip_break_def splitlines.simps [of "[]"])
      ultimately show ?thesis by simp
    next
      case (Cons c r')
      have "c \<in> set s" using s Cons by (metis in_set_conv_decomp append_assoc)
      moreover have "is_linebreak c"
        using hd_dropWhile [of "\<lambda>c. \<not> is_linebreak c" s] Cons by simp
      ultimately have c: "c = CHR 0x0A" using "1.prems" by blast
      then have sk: "skip_break ?r = r'" unfolding Cons by (simp add: skip_break_def)
      have sub: "set r' \<subseteq> set s" using s Cons by (metis set_subset_Cons set_append le_supI2 list.set_intros(2) subsetI Un_iff)
      have IH: "join nl (splitlines r') = (if r' \<noteq> [] \<and> last r' = CHR 0x0A then butlast r' else r')"
        using "1.IH" [OF ne] "1.prems" sub unfolding sk by blast
      have s': "s = ?line @ CHR 0x0A # r'" using s Cons c by simp
      show ?thesis
      proof (cases "r' = []")
        case True
        have "join nl (splitlines s) = ?line"
          unfolding sl sk True by (simp add: splitlines.simps [of "[]"])
        moreover have "butlast s = ?line \<and> last s = CHR 0x0A"
          using s' True by (metis butlast_snoc last_snoc)
        ultimately show ?thesis using ne by simp
      next
        case False
        then have "splitlines r' \<noteq> []" by (simp add: splitlines_Nil)
        then have "join nl (splitlines s) = ?line @ nl @ join nl (splitlines r')"
          unfolding sl sk by (simp add: join_Cons)
        moreover have "last s = last r'" using s' False by (metis last_append last_ConsR list.distinct(1))
        moreover have "butlast s = ?line @ CHR 0x0A # butlast r'"
          using s' False by (metis butlast_append butlast.simps(2) list.distinct(1))
        ultimately show ?thesis using IH False s' ne by (auto simp: nl_def)
      qed
    qed
  qed
qed

lemma set_join_Cons: "set x \<subseteq> set (join sep (x # xs)) \<and> set (join sep xs) \<subseteq> set (join sep (x # xs))"
  by (cases xs) auto

lemma nonbreak_in_join_splitlines:
  "c \<in> set s \<Longrightarrow> \<not> is_linebreak c \<Longrightarrow> c \<in> set (join nl (splitlines s))"
proof (induction s rule: splitlines.induct)
  case (1 s)
  then have ne: "s \<noteq> []" by auto
  let ?line = "takeWhile (\<lambda>c. \<not> is_linebreak c) s"
  let ?r = "dropWhile (\<lambda>c. \<not> is_linebreak c) s"
  have sl: "splitlines s = ?line # splitlines (skip_break ?r)"
    using ne by (subst splitlines.simps) simp
  have "set s = set ?line \<union> set ?r" by (metis set_append takeWhile_dropWhile_id)
  then consider "c \<in> set ?line" | "c \<in> set ?r" using "1.prems"(1) by blast
  then show ?case
  proof cases
    case 1
    then show ?thesis unfolding sl using set_join_Cons by blast
  next
    case 2
    then obtain b r' where r: "?r = b # r'" by (cases ?r) auto
    have "is_linebreak b"
      using hd_dropWhile [of "\<lambda>c. \<not> is_linebreak c" s] r by simp
    then have "c \<noteq> b" using "1.prems"(2) by blast
    then have cr: "c \<in> set r'" using 2 r by simp
    have "c \<noteq> CHR 0x0A" using "1.prems"(2) by (auto simp: is_linebreak_def)
    then have "c \<in> set (skip_break ?r)"
      unfolding r using cr by (cases r') (auto simp: skip_break_def)
    then have "c \<in> set (join nl (splitlines (skip_break ?r)))"
      using "1.IH" [OF ne] "1.prems"(2) by blast
    then show ?thesis unfolding sl using set_join_Cons by blast
  qed
qed

lemma strip_butlast_lf: "s \<noteq> [] \<Longrightarrow> last s = CHR 0x0A \<Longrightarrow> strip (butlast s) = strip s"
proof -
  assume ne: "s \<noteq> []" and l: "last s = CHR 0x0A"
  have "is_space (CHR 0x0A)" by (simp add: is_space_def)
  then have "strip (butlast s @ [CHR 0x0A]) = strip (butlast s)" by (rule strip_snoc_space)
  moreover have "butlast s @ [CHR 0x0A] = s" using ne l by (metis append_butlast_last_id)
  ultimately show ?thesis by simp
qed

text \<open>
  C7, as the code has it. For every script with no line that starts with \<open>.\<close> and with at
  least one character that is not white space, \<open>_split_script\<close> returns exactly one command:
  the newline-join of the script's lines, trimmed, which is not empty, and which is the script
  itself trimmed when every line boundary of the script is the character LF. The empty script
  gives the empty sequence. In every result, of any script, each command is trimmed.
\<close>

theorem split_script_without_dot_lines:
  assumes nodot: "\<forall>line\<in>set (splitlines s). \<not> startswith line ''.''"
      and nonblank: "\<exists>c\<in>set s. \<not> is_space c"
  shows "split_script s = [strip (join nl (splitlines s))] \<and>
         strip (join nl (splitlines s)) \<noteq> [] \<and>
         ((\<forall>c\<in>set s. is_linebreak c \<longrightarrow> c = CHR 0x0A) \<longrightarrow> split_script s = [strip s]) \<and>
         split_script [] = [] \<and>
         (\<forall>script. \<forall>command\<in>set (split_script script). strip command = command)"
proof -
  let ?j = "join nl (splitlines s)"
  from nonblank obtain c where c: "c \<in> set s" "\<not> is_space c" by blast
  then have "\<not> is_linebreak c" using linebreak_is_space by blast
  then have "c \<in> set ?j" using c(1) by (rule nonbreak_in_join_splitlines [rotated])
  then have ns: "strip ?j \<noteq> []" using c(2) by (auto simp: strip_eq_Nil)
  then have jne: "?j \<noteq> []" by (auto simp: strip_def)
  have "emit_commands [] (splitlines s) = [?j]"
    using nodot by (simp add: emit_no_dot startswith_dot)
  then have one: "split_script s = [strip ?j]"
    using jne by (simp add: split_script_emit)
  have lf: "split_script s = [strip s]" if a: "\<forall>c\<in>set s. is_linebreak c \<longrightarrow> c = CHR 0x0A"
  proof -
    have "?j = (if s \<noteq> [] \<and> last s = CHR 0x0A then butlast s else s)"
      using a by (rule join_splitlines_lf)
    then have "strip ?j = strip s" by (auto simp: strip_butlast_lf)
    then show ?thesis using one by simp
  qed
  have empty: "split_script [] = []"
    by (simp add: split_script_emit splitlines.simps [of "[]"])
  have trimmed: "\<forall>script. \<forall>command\<in>set (split_script script). strip command = command"
    by (auto simp: split_script_emit strip_idem)
  from lf have lf': "(\<forall>c\<in>set s. is_linebreak c \<longrightarrow> c = CHR 0x0A) \<longrightarrow> split_script s = [strip s]"
    by (rule impI)
  from one ns lf' empty trimmed show ?thesis by (intro conjI)
qed

theorem split_script_without_dot_lines_witness:
  "split_script '' select 1;\<newline>select 2; \<newline>'' = [''select 1;\<newline>select 2;''] \<and>
   strip '' select 1;\<newline>select 2; \<newline>'' = ''select 1;\<newline>select 2;''"
proof -
  have l: "splitlines '' select 1;\<newline>select 2; \<newline>'' = ['' select 1;'', ''select 2; '']"
    by code_simp
  have 1: "\<forall>line\<in>set (splitlines '' select 1;\<newline>select 2; \<newline>''). \<not> startswith line ''.''"
    unfolding l by (simp add: startswith_def)
  have 2: "\<exists>c\<in>set '' select 1;\<newline>select 2; \<newline>''. \<not> is_space c"
    by (simp add: is_space_def)
  have 3: "\<forall>c\<in>set '' select 1;\<newline>select 2; \<newline>''. is_linebreak c \<longrightarrow> c = CHR 0x0A"
    by (simp add: is_linebreak_def)
  have 4: "strip '' select 1;\<newline>select 2; \<newline>'' = ''select 1;\<newline>select 2;''"
    by code_simp
  note t = split_script_without_dot_lines [OF 1 2]
  have "split_script '' select 1;\<newline>select 2; \<newline>'' = [strip '' select 1;\<newline>select 2; \<newline>'']"
    by (rule mp [OF conjunct1 [OF conjunct2 [OF conjunct2 [OF t]]] 3])
  then show ?thesis by (simp only: 4 simp_thms)
qed


text \<open>
  C7, as the specification states it, fails in two ways. The lines are joined again with LF,
  so a script with another line boundary does not come back as itself trimmed: \<open>a CR LF b\<close>
  gives the command \<open>a LF b\<close>. And the filter \<open>if command\<close> runs on the command before it is
  trimmed, so the blank script of two spaces gives one empty command, not the empty sequence.
\<close>

theorem split_script_trimmed_counterexample:
  "split_script (''a'' @ [CHR 0x0D, CHR 0x0A] @ ''b'') = [''a\<newline>b''] \<and>
   strip (''a'' @ [CHR 0x0D, CHR 0x0A] @ ''b'') = ''a'' @ [CHR 0x0D, CHR 0x0A] @ ''b'' \<and>
   split_script (''a'' @ [CHR 0x0D, CHR 0x0A] @ ''b'')
     \<noteq> [strip (''a'' @ [CHR 0x0D, CHR 0x0A] @ ''b'')] \<and>
   split_script ''  '' = [[]] \<and>
   split_script ''  '' \<noteq> []"
proof -
  have c1: "split_script (''a'' @ [CHR 0x0D, CHR 0x0A] @ ''b'') = [''a\<newline>b'']" by code_simp
  have c2: "strip (''a'' @ [CHR 0x0D, CHR 0x0A] @ ''b'') = ''a'' @ [CHR 0x0D, CHR 0x0A] @ ''b''"
    by code_simp
  have c3: "split_script ''  '' = [[]]" by code_simp
  have n1: "split_script (''a'' @ [CHR 0x0D, CHR 0x0A] @ ''b'')
     \<noteq> [strip (''a'' @ [CHR 0x0D, CHR 0x0A] @ ''b'')]"
    unfolding c1 c2 by simp
  have n2: "split_script ''  '' \<noteq> []" unfolding c3 by simp
  from c1 c2 n1 c3 n2 show ?thesis by (intro conjI)
qed

section \<open>ScriptRewriter\<close>

lemma split_ws_Cons:
  "s \<noteq> [] \<Longrightarrow> \<not> is_space (hd s) \<Longrightarrow>
   split_ws s = takeWhile (\<lambda>c. \<not> is_space c) s # split_ws (dropWhile (\<lambda>c. \<not> is_space c) s)"
  by (subst split_ws.simps) (cases s, simp_all)

lemma startswith_Cons: "startswith s (c # p) \<longleftrightarrow> (\<exists>t. s = c # t \<and> startswith t p)"
  by (cases s) (auto simp: startswith_def)

lemma dot_not_space: "\<not> is_space (CHR ''.'')"
  by (simp add: is_space_def)

lemma split_ws_dot:
  assumes "startswith c ''.''"
  shows "\<exists>name. split_ws c = name # drop 1 (split_ws c) \<and> name = takeWhile (\<lambda>x. \<not> is_space x) c"
proof -
  from assms obtain t where c: "c = CHR ''.'' # t" by (auto simp: startswith_Cons)
  then have "split_ws c = takeWhile (\<lambda>x. \<not> is_space x) c # split_ws (dropWhile (\<lambda>x. \<not> is_space x) c)"
    using dot_not_space by (intro split_ws_Cons) simp_all
  then show ?thesis by simp
qed

lemma rewrite_dot_open_none:
  "drop 1 (split_ws c) = [] \<Longrightarrow>
   rewrite_dot_open c = Inr (''attach '' @ sq @ '':memory:'' @ sq @ ''; use memory;'')"
  by (simp add: rewrite_dot_open_def)

lemma rewrite_dot_open_readonly:
  "drop 1 (split_ws c) = [''--readonly'', p] \<Longrightarrow>
   rewrite_dot_open c = Inr (attach_sql '' (READ_ONLY)'' p)"
  by (simp add: rewrite_dot_open_def seq_def py_nth_def)

lemma rewrite_dot_open_path:
  "drop 1 (split_ws c) = p # rest \<Longrightarrow> \<not> (p = ''--readonly'' \<and> length rest = 1) \<Longrightarrow>
   rewrite_dot_open c = Inr (attach_sql [] p)"
  by (auto simp: rewrite_dot_open_def seq_def py_nth_def Let_def)

lemma rewrite_dot_open_total: "\<exists>r. rewrite_dot_open c = Inr r"
proof (cases "drop 1 (split_ws c)")
  case Nil
  then show ?thesis by (simp add: rewrite_dot_open_none)
next
  case (Cons p rest)
  show ?thesis
  proof (cases "p = ''--readonly'' \<and> length rest = 1")
    case True
    then obtain q where "rest = [q]" by (cases rest) auto
    then show ?thesis using Cons True by (simp add: rewrite_dot_open_readonly)
  next
    case False
    then show ?thesis using Cons rewrite_dot_open_path by blast
  qed
qed

lemma attach_sql_prefix: "startswith (attach_sql opt p) ''attach ''"
  by (simp add: attach_sql_def startswith_def)

lemma rewrite_dot_open_attach:
  "\<exists>r. rewrite_dot_open c = Inr r \<and> startswith r ''attach ''"
proof (cases "drop 1 (split_ws c)")
  case Nil
  then show ?thesis by (simp add: rewrite_dot_open_none startswith_def)
next
  case (Cons p rest)
  show ?thesis
  proof (cases "p = ''--readonly'' \<and> length rest = 1")
    case True
    then obtain q where "rest = [q]" by (cases rest) auto
    then show ?thesis using Cons True by (simp add: rewrite_dot_open_readonly attach_sql_prefix)
  next
    case False
    then show ?thesis using Cons rewrite_dot_open_path attach_sql_prefix by metis
  qed
qed

lemma join_Cons2: "xs \<noteq> [] \<Longrightarrow> join sep (x # xs) = x @ sep @ join sep xs"
  by (cases xs) simp_all

lemma join_split_on: "join [sep] (split_on sep s) = s"
proof (induction s)
  case Nil
  then show ?case by simp
next
  case (Cons c cs)
  obtain w ws where w: "split_on sep cs = w # ws"
    using split_on_nonempty [of sep cs] by (cases "split_on sep cs") auto
  show ?case
  proof (cases "c = sep")
    case True
    then show ?thesis using Cons w by (simp add: join_Cons2)
  next
    case False
    then show ?thesis using Cons w by (cases ws) simp_all
  qed
qed

lemma plain_path_str:
  assumes "plain_path p"
  shows "Path_str p = p"
proof -
  have hd: "takeWhile (\<lambda>c. c \<noteq> CHR ''/'') p \<noteq> []"
  proof -
    have "hd (split_on (CHR ''/'') p) \<in> set (split_on (CHR ''/'') p)"
      using split_on_nonempty by (rule hd_in_set)
    then have "hd (split_on (CHR ''/'') p) \<noteq> []"
      using assms by (auto simp: plain_path_def list_all_iff)
    then show ?thesis by (simp add: hd_split_on)
  qed
  then obtain a t where p: "p = a # t" and a: "a \<noteq> CHR ''/''"
    by (cases p) (auto split: if_splits)
  then have root: "splitroot p = ([], p)" by (simp add: splitroot_def)
  have "filter (\<lambda>x. x \<noteq> [] \<and> x \<noteq> ''.'') (split_on (CHR ''/'') p) = split_on (CHR ''/'') p"
    using assms by (simp add: plain_path_def list_all_iff)
  then have "path_parts p = split_on (CHR ''/'') p"
    by (simp add: path_parts_def root)
  then have "join ''/'' (path_parts p) = p"
    using join_split_on [of "CHR ''/''" p] by simp
  then have "fst (splitroot p) @ join ''/'' (path_parts p) = p"
    by (simp only: root fst_conv append_Nil)
  moreover have "p \<noteq> []" using p by simp
  ultimately show ?thesis by (simp add: Path_str_def)
qed

lemma split_on_no_sep: "sep \<notin> set s \<Longrightarrow> split_on sep s = [s]"
  by (induction s) auto

lemma rfind_last_dot:
  assumes "CHR ''.'' \<notin> set ext"
  shows "rfind (CHR ''.'') (base @ ''.'' @ ext) = int (length base)"
proof -
  have "takeWhile (\<lambda>x. x \<noteq> CHR ''.'') (rev ext @ CHR ''.'' # rev base) = rev ext"
    using takeWhile_append2 [of "rev ext" "\<lambda>x. x \<noteq> CHR ''.''" "CHR ''.'' # rev base"] assms
    by auto
  then show ?thesis by (simp add: rfind_def)
qed

lemma file_name_stem:
  assumes "CHR ''/'' \<notin> set base" "CHR ''/'' \<notin> set ext" "CHR ''.'' \<notin> set ext"
      and "base \<noteq> []" "ext \<noteq> []"
  shows "Path_stem (base @ ''.'' @ ext) = base \<and> plain_path (base @ ''.'' @ ext)"
proof -
  let ?n = "base @ ''.'' @ ext"
  have nosep: "CHR ''/'' \<notin> set ?n" using assms by simp
  then have sp: "split_on (CHR ''/'') ?n = [?n]" by (rule split_on_no_sep)
  have ne: "?n \<noteq> [] \<and> ?n \<noteq> ''.''" using assms by (cases base) auto
  obtain a t where b: "base = a # t" using assms(4) by (cases base) auto
  have "a \<noteq> CHR ''/''" using assms(1) b by auto
  then have root: "splitroot ?n = ([], ?n)" by (simp add: splitroot_def b)
  have parts: "path_parts ?n = [?n]"
    unfolding path_parts_def root using sp ne by simp
  then have name: "Path_name ?n = ?n" by (simp add: Path_name_def)
  have i: "rfind (CHR ''.'') ?n = int (length base)" using assms(3) by (rule rfind_last_dot)
  have "Path_stem ?n = base"
    unfolding Path_stem_def name i Let_def using assms(4,5) by (cases ext) simp_all
  moreover have "plain_path ?n" unfolding plain_path_def sp using ne by simp
  ultimately show ?thesis by simp
qed

lemma startswith_append: "startswith s p \<longleftrightarrow> (\<exists>t. s = p @ t)"
proof
  assume "startswith s p"
  then have "s = p @ drop (length p) s"
    by (metis append_take_drop_id startswith_def)
  then show "\<exists>t. s = p @ t" ..
next
  assume "\<exists>t. s = p @ t"
  then show "startswith s p" by (auto simp: startswith_def)
qed

lemma open_is_dot: "startswith command ''.open'' \<Longrightarrow> startswith command ''.''"
  by (auto simp: startswith_append)

lemma rewrite_init_command_total: "\<exists>r. rewrite_init_command command = Inr r"
  using rewrite_dot_open_total [of command] by (simp add: rewrite_init_command_def)

lemma open_name_token:
  assumes "startswith command ''.open''"
  shows "\<exists>name. split_ws command = name # drop 1 (split_ws command) \<and> startswith name ''.open''"
proof -
  from assms obtain t where c: "command = ''.open'' @ t"
    by (auto simp: startswith_append)
  have "startswith command ''.''" using assms by (rule open_is_dot)
  then obtain name where n: "split_ws command = name # drop 1 (split_ws command)"
      "name = takeWhile (\<lambda>x. \<not> is_space x) command"
    using split_ws_dot by blast
  have "name = ''.open'' @ takeWhile (\<lambda>x. \<not> is_space x) t"
    unfolding n(2) c by (simp add: is_space_def)
  then have "startswith name ''.open''" by (simp add: startswith_def)
  then show ?thesis using n(1) by blast
qed

text \<open>
  C8. For every command string, \<open>_rewrite_init_command\<close> returns the command unchanged when it
  does not start with \<open>.\<close>, and the empty string when it starts with \<open>.\<close> but not with
  \<open>.open\<close>, as for \<open>.help\<close>; it returns a string for every input and never raises.
\<close>

theorem rewrite_init_command_passthrough:
  "(\<not> startswith command ''.'' \<longrightarrow> rewrite_init_command command = Inr command) \<and>
   (startswith command ''.'' \<and> \<not> startswith command ''.open''
      \<longrightarrow> rewrite_init_command command = Inr []) \<and>
   (\<exists>r. rewrite_init_command command = Inr r) \<and>
   rewrite_init_command ''.help'' = Inr []"
proof (intro conjI impI)
  show "\<exists>r. rewrite_init_command command = Inr r" by (rule rewrite_init_command_total)
  show "rewrite_init_command ''.help'' = Inr []"
    by (simp add: rewrite_init_command_def startswith_def)
qed (simp_all add: rewrite_init_command_def)


theorem rewrite_init_command_passthrough_witness:
  "rewrite_init_command ''select 1;'' = Inr ''select 1;'' \<and>
   rewrite_init_command ''.mode csv'' = Inr []"
  using rewrite_init_command_passthrough [of "''select 1;''"]
        rewrite_init_command_passthrough [of "''.mode csv''"]
  by (simp add: startswith_def)


text \<open>
  C10. The dispatch is by prefix: every command that starts with \<open>.open\<close>, whatever the rest
  of its first token, is handed to \<open>_rewrite_dot_open\<close>; its result begins with \<open>attach\<close>, so
  the command is not dropped, and depends only on the tokens after the first. So \<open>.openx
  foo.db\<close> is rewritten as \<open>.open foo.db\<close> is.
\<close>

theorem open_dispatch_by_prefix:
  "(startswith command ''.open'' \<longrightarrow>
      (\<exists>name. split_ws command = name # drop 1 (split_ws command) \<and> startswith name ''.open'') \<and>
      rewrite_init_command command = rewrite_dot_open command \<and>
      (\<exists>r. rewrite_init_command command = Inr r \<and> startswith r ''attach '' \<and> r \<noteq> []) \<and>
      (\<forall>other. startswith other ''.open'' \<and> drop 1 (split_ws other) = drop 1 (split_ws command)
         \<longrightarrow> rewrite_init_command other = rewrite_init_command command)) \<and>
   rewrite_init_command ''.openx foo.db''
     = Inr (''attach '' @ sq @ ''foo.db'' @ sq @ '' as foo; use foo;'') \<and>
   rewrite_init_command ''.open foo.db''
     = Inr (''attach '' @ sq @ ''foo.db'' @ sq @ '' as foo; use foo;'')"
proof (intro conjI impI allI)
  assume a: "startswith command ''.open''"
  then have dot: "startswith command ''.''" by (rule open_is_dot)
  show "\<exists>name. split_ws command = name # drop 1 (split_ws command) \<and> startswith name ''.open''"
    using a by (rule open_name_token)
  show eq: "rewrite_init_command command = rewrite_dot_open command"
    using a dot by (simp add: rewrite_init_command_def)
  obtain r where r: "rewrite_dot_open command = Inr r" "startswith r ''attach ''"
    using rewrite_dot_open_attach by blast
  then have "r \<noteq> []" by (auto simp: startswith_def)
  then show "\<exists>r. rewrite_init_command command = Inr r \<and> startswith r ''attach '' \<and> r \<noteq> []"
    using r eq by simp
next
  fix other
  assume a: "startswith command ''.open''"
    and b: "startswith other ''.open'' \<and> drop 1 (split_ws other) = drop 1 (split_ws command)"
  have "startswith command ''.''" "startswith other ''.''"
    using a b by (auto intro: open_is_dot)
  then have "rewrite_init_command other = rewrite_dot_open other"
        and "rewrite_init_command command = rewrite_dot_open command"
    using a b by (simp_all add: rewrite_init_command_def)
  moreover have "rewrite_dot_open other = rewrite_dot_open command"
    using b by (simp add: rewrite_dot_open_def)
  ultimately show "rewrite_init_command other = rewrite_init_command command" by simp
next
  show "rewrite_init_command ''.openx foo.db''
     = Inr (''attach '' @ sq @ ''foo.db'' @ sq @ '' as foo; use foo;'')"
    by code_simp
  show "rewrite_init_command ''.open foo.db''
     = Inr (''attach '' @ sq @ ''foo.db'' @ sq @ '' as foo; use foo;'')"
    by code_simp
qed


theorem open_dispatch_by_prefix_witness:
  "rewrite_init_command ''.openx foo.db'' = rewrite_dot_open ''.openx foo.db'' \<and>
   rewrite_init_command ''.open foo.db'' = rewrite_init_command ''.openx foo.db''"
proof -
  have 1: "startswith ''.openx foo.db'' ''.open''" by (simp add: startswith_def)
  have 2: "startswith ''.open foo.db'' ''.open''" by (simp add: startswith_def)
  have 3: "drop 1 (split_ws ''.open foo.db'') = drop 1 (split_ws ''.openx foo.db'')"
    by code_simp
  note t = open_dispatch_by_prefix [of "''.openx foo.db''"]
  from t 1 have a: "rewrite_init_command ''.openx foo.db'' = rewrite_dot_open ''.openx foo.db''"
    by blast
  from t 1 2 3 have b: "rewrite_init_command ''.open foo.db'' = rewrite_init_command ''.openx foo.db''"
    by blast
  from a b show ?thesis by (rule conjI)
qed

text \<open>
  C2, as the code has it. The tokens of a command that starts with \<open>.open\<close> are its name and
  the arguments. With no argument the rule returns the attachment of \<open>:memory:\<close>; with the two
  arguments \<open>--readonly\<close> and a path it returns the read-only attachment of the path; otherwise
  it attaches the first argument. The text between the quotes is the path as \<open>Path\<close> prints
  it, and the name is the \<open>stem\<close> of the path: for a relative path whose components are
  neither empty nor \<open>.\<close> the printed path is the argument itself, and for a file name
  \<open>base.ext\<close> the stem is \<open>base\<close>.
\<close>

theorem rewrite_dot_open_rule:
  "(startswith command ''.open'' \<longrightarrow>
      (\<exists>name. split_ws command = name # drop 1 (split_ws command))) \<and>
   (drop 1 (split_ws command) = [] \<longrightarrow>
      rewrite_dot_open command = Inr (''attach '' @ sq @ '':memory:'' @ sq @ ''; use memory;'')) \<and>
   (drop 1 (split_ws command) = [''--readonly'', p] \<longrightarrow>
      rewrite_dot_open command
        = Inr (''attach '' @ sq @ Path_str p @ sq @ '' (READ_ONLY) as '' @ Path_stem p
                 @ ''; use '' @ Path_stem p @ '';'')) \<and>
   (drop 1 (split_ws command) = p # rest \<and> \<not> (p = ''--readonly'' \<and> length rest = 1) \<longrightarrow>
      rewrite_dot_open command
        = Inr (''attach '' @ sq @ Path_str p @ sq @ '' as '' @ Path_stem p
                 @ ''; use '' @ Path_stem p @ '';'')) \<and>
   (plain_path p \<longrightarrow> Path_str p = p) \<and>
   (CHR ''/'' \<notin> set base \<and> CHR ''/'' \<notin> set ext \<and> CHR ''.'' \<notin> set ext \<and> base \<noteq> [] \<and> ext \<noteq> []
      \<longrightarrow> Path_stem (base @ ''.'' @ ext) = base \<and> Path_str (base @ ''.'' @ ext) = base @ ''.'' @ ext) \<and>
   rewrite_dot_open ''.open --readonly mydata.db''
     = Inr (''attach '' @ sq @ ''mydata.db'' @ sq @ '' (READ_ONLY) as mydata; use mydata;'')"
proof (intro conjI impI)
  assume "startswith command ''.open''"
  then show "\<exists>name. split_ws command = name # drop 1 (split_ws command)"
    using open_name_token by blast
next
  assume "drop 1 (split_ws command) = []"
  then show "rewrite_dot_open command = Inr (''attach '' @ sq @ '':memory:'' @ sq @ ''; use memory;'')"
    by (rule rewrite_dot_open_none)
next
  assume "drop 1 (split_ws command) = [''--readonly'', p]"
  then have "rewrite_dot_open command = Inr (attach_sql '' (READ_ONLY)'' p)"
    by (rule rewrite_dot_open_readonly)
  then show "rewrite_dot_open command
        = Inr (''attach '' @ sq @ Path_str p @ sq @ '' (READ_ONLY) as '' @ Path_stem p
                 @ ''; use '' @ Path_stem p @ '';'')"
    by (simp add: attach_sql_def)
next
  assume "drop 1 (split_ws command) = p # rest \<and> \<not> (p = ''--readonly'' \<and> length rest = 1)"
  then have "rewrite_dot_open command = Inr (attach_sql [] p)"
    using rewrite_dot_open_path by blast
  then show "rewrite_dot_open command
        = Inr (''attach '' @ sq @ Path_str p @ sq @ '' as '' @ Path_stem p
                 @ ''; use '' @ Path_stem p @ '';'')"
    by (simp add: attach_sql_def)
next
  assume "plain_path p"
  then show "Path_str p = p" by (rule plain_path_str)
next
  assume a: "CHR ''/'' \<notin> set base \<and> CHR ''/'' \<notin> set ext \<and> CHR ''.'' \<notin> set ext \<and> base \<noteq> [] \<and> ext \<noteq> []"
  then have s: "Path_stem (base @ ''.'' @ ext) = base \<and> plain_path (base @ ''.'' @ ext)"
    by (intro file_name_stem) simp_all
  then show "Path_stem (base @ ''.'' @ ext) = base" by simp
  from s show "Path_str (base @ ''.'' @ ext) = base @ ''.'' @ ext"
    by (intro plain_path_str) simp
next
  show "rewrite_dot_open ''.open --readonly mydata.db''
     = Inr (''attach '' @ sq @ ''mydata.db'' @ sq @ '' (READ_ONLY) as mydata; use mydata;'')"
    by code_simp
qed


theorem rewrite_dot_open_rule_witness:
  "rewrite_dot_open ''.open   --readonly  data/my.db''
     = Inr (''attach '' @ sq @ ''data/my.db'' @ sq @ '' (READ_ONLY) as my; use my;'') \<and>
   rewrite_dot_open ''.open data/my.db extra''
     = Inr (''attach '' @ sq @ ''data/my.db'' @ sq @ '' as my; use my;'') \<and>
   rewrite_dot_open ''.open '' = Inr (''attach '' @ sq @ '':memory:'' @ sq @ ''; use memory;'') \<and>
   Path_stem ''my.db'' = ''my''"
proof -
  have a1: "drop 1 (split_ws ''.open   --readonly  data/my.db'') = [''--readonly'', ''data/my.db'']"
    by code_simp
  have a2: "drop 1 (split_ws ''.open data/my.db extra'') = [''data/my.db'', ''extra'']"
    by code_simp
  have a3: "drop 1 (split_ws ''.open '') = []" by code_simp
  have pl: "plain_path ''data/my.db''" by code_simp
  have st: "Path_stem ''data/my.db'' = ''my''" by code_simp
  have ps: "Path_str ''data/my.db'' = ''data/my.db''"
    using rewrite_dot_open_rule [of "[]" "''data/my.db''"] pl by blast
  have 1: "rewrite_dot_open ''.open   --readonly  data/my.db''
     = Inr (''attach '' @ sq @ ''data/my.db'' @ sq @ '' (READ_ONLY) as my; use my;'')"
    using rewrite_dot_open_rule [of "''.open   --readonly  data/my.db''" "''data/my.db''"] a1
    by (simp add: ps st)
  have 2: "rewrite_dot_open ''.open data/my.db extra''
     = Inr (''attach '' @ sq @ ''data/my.db'' @ sq @ '' as my; use my;'')"
    using rewrite_dot_open_rule [of "''.open data/my.db extra''" "''data/my.db''" "[''extra'']"] a2
    by (simp add: ps st)
  have 3: "rewrite_dot_open ''.open '' = Inr (''attach '' @ sq @ '':memory:'' @ sq @ ''; use memory;'')"
    using rewrite_dot_open_rule [of "''.open ''"] a3 by blast
  have 4: "Path_stem ''my.db'' = ''my''"
    using rewrite_dot_open_rule [of "[]" "[]" "[]" "''my''" "''db''"] by simp
  from 1 2 3 4 show ?thesis by (intro conjI)
qed


text \<open>
  C2, as the specification states it, puts the path argument itself between the quotes. The
  code prints the \<open>Path\<close> built from it: the argument \<open>./foo.db\<close> is attached as \<open>foo.db\<close>.
\<close>

theorem rewrite_dot_open_path_counterexample:
  "drop 1 (split_ws ''.open ./foo.db'') = [''./foo.db''] \<and>
   rewrite_dot_open ''.open ./foo.db''
     = Inr (''attach '' @ sq @ ''foo.db'' @ sq @ '' as foo; use foo;'') \<and>
   rewrite_dot_open ''.open ./foo.db''
     \<noteq> Inr (''attach '' @ sq @ ''./foo.db'' @ sq @ '' as foo; use foo;'')"
proof -
  have a: "drop 1 (split_ws ''.open ./foo.db'') = [''./foo.db'']" by code_simp
  have b: "rewrite_dot_open ''.open ./foo.db''
     = Inr (''attach '' @ sq @ ''foo.db'' @ sq @ '' as foo; use foo;'')" by code_simp
  have c: "rewrite_dot_open ''.open ./foo.db''
     \<noteq> Inr (''attach '' @ sq @ ''./foo.db'' @ sq @ '' as foo; use foo;'')"
    unfolding b by (simp add: sq_def)
  from a b c show ?thesis by (intro conjI)
qed

section \<open>TypeNormalizer\<close>

lemma base_type_eq:
  "base_type t = Inr (takeWhile (\<lambda>c. c \<noteq> CHR ''('' \<and> c \<noteq> CHR ''['') t)"
proof -
  have "takeWhile (\<lambda>c. c \<noteq> CHR ''['') (takeWhile (\<lambda>c. c \<noteq> CHR ''('') t)
        = takeWhile (\<lambda>c. c \<noteq> CHR ''('' \<and> c \<noteq> CHR ''['') t"
    by (induction t) auto
  then show ?thesis
    by (simp add: base_type_def seq_def py_nth_0_split_on)
qed

lemma mapping_value_known: "COLUMN_TYPE_MAPPING b = Some v \<Longrightarrow> v \<noteq> ''?''"
  by (auto simp: COLUMN_TYPE_MAPPING_def split: if_splits)

text \<open>
  C3, as the code has it. \<open>_short_column_type\<close> returns a tag for every native type string: the
  two \<open>[0]\<close> reads never raise, and the base name is the text before the first \<open>(\<close> or
  \<open>[\<close>. The base name is absent from \<open>COLUMN_TYPE_MAPPING\<close> exactly when the tag is the unknown
  marker, which is \<open>?\<close> for a native type that does not end with \<open>[]\<close> and the wrapped \<open>[?]\<close>
  for one that does. So the tag is the bare \<open>?\<close> exactly when the base name is absent and the
  native type does not end with \<open>[]\<close>.
\<close>

theorem short_column_type_unknown_marker:
  "\<exists>tag. short_column_type t = Inr tag \<and>
     base_type t = Inr (takeWhile (\<lambda>c. c \<noteq> CHR ''('' \<and> c \<noteq> CHR ''['') t) \<and>
     (COLUMN_TYPE_MAPPING (takeWhile (\<lambda>c. c \<noteq> CHR ''('' \<and> c \<noteq> CHR ''['') t) = None
        \<longleftrightarrow> tag = (if endswith t ''[]'' then ''[?]'' else ''?'')) \<and>
     (tag = ''?''
        \<longleftrightarrow> COLUMN_TYPE_MAPPING (takeWhile (\<lambda>c. c \<noteq> CHR ''('' \<and> c \<noteq> CHR ''['') t) = None
            \<and> \<not> endswith t ''[]'')"
  by (cases "COLUMN_TYPE_MAPPING (takeWhile (\<lambda>c. c \<noteq> CHR ''('' \<and> c \<noteq> CHR ''['') t)")
     (auto simp: short_column_type_def base_type_eq seq_def dict_get_def UNKNOWN_TYPE_def
           dest: mapping_value_known)

text \<open>
  C3, as the specification states it, fails on an array of an unmapped type: the base name
  \<open>FROBNICATE\<close> of \<open>FROBNICATE[]\<close> is absent from the table, and the tag is \<open>[?]\<close>, not \<open>?\<close>.
\<close>

theorem short_column_type_array_counterexample:
  "base_type ''FROBNICATE[]'' = Inr ''FROBNICATE'' \<and>
   COLUMN_TYPE_MAPPING ''FROBNICATE'' = None \<and>
   short_column_type ''FROBNICATE[]'' = Inr ''[?]'' \<and>
   short_column_type ''FROBNICATE[]'' \<noteq> Inr ''?''"
  by (simp add: short_column_type_def base_type_eq seq_def dict_get_def UNKNOWN_TYPE_def
        COLUMN_TYPE_MAPPING_def endswith_def)

section \<open>CatalogBuilder\<close>

lemma short_column_type_total: "\<exists>tag. short_column_type t = Inr tag"
  by (simp add: short_column_type_def base_type_eq seq_def Let_def)

lemma for_each_total:
  "(\<And>x. \<exists>y. f x = Inr y) \<Longrightarrow> \<exists>ys. for_each f xs = Inr ys"
proof (induction xs)
  case Nil
  then show ?case by simp
next
  case (Cons x xs)
  then obtain y ys where "f x = Inr y" "for_each f xs = Inr ys" by metis
  then show ?case by (simp add: seq_def)
qed

lemma for_each_all2:
  "for_each f xs = Inr ys \<Longrightarrow> list_all2 (\<lambda>x y. f x = Inr y) xs ys"
proof (induction xs arbitrary: ys)
  case Nil
  then show ?case by simp
next
  case (Cons x xs)
  then show ?case
    by (auto simp: seq_def split: sum.splits)
qed

lemma for_each_cases:
  assumes each: "\<And>x. (ok x \<longrightarrow> (\<exists>y. f x = Inr y)) \<and>
                     (\<not> ok x \<longrightarrow> (\<exists>msg. f x = Inl (DuckDbError msg) \<and> R msg))"
  shows "(list_all ok xs \<longrightarrow> (\<exists>ys. for_each f xs = Inr ys)) \<and>
         (\<not> list_all ok xs \<longrightarrow> (\<exists>msg. for_each f xs = Inl (DuckDbError msg) \<and> R msg))"
proof (induction xs)
  case Nil
  then show ?case by simp
next
  case (Cons x xs)
  show ?case
  proof (cases "ok x")
    case True
    then obtain y where y: "f x = Inr y" using each by blast
    show ?thesis using Cons.IH True y by (auto simp: seq_def)
  next
    case False
    then obtain msg where "f x = Inl (DuckDbError msg)" "R msg" using each by blast
    then show ?thesis using False by (auto simp: seq_def)
  qed
qed

lemma column_item_total: "\<exists>item. column_item tid col = Inr item"
proof -
  obtain tag where "short_column_type (snd col) = Inr tag"
    using short_column_type_total by blast
  then show ?thesis by (simp add: column_item_def seq_def)
qed

lemma table_item_cases:
  "(columns_ok src d s row \<longrightarrow> (\<exists>item. table_item src d s sid row = Inr item)) \<and>
   (\<not> columns_ok src d s row \<longrightarrow>
      (\<exists>msg. table_item src d s sid row = Inl (DuckDbError msg) \<and> raised_by src msg))"
proof (cases "columns src d s (fst row)")
  case (Inl msg)
  then have "raised_by src msg" by (auto simp: raised_by_def)
  then show ?thesis using Inl
    by (auto simp: columns_ok_def table_item_def get_columns_def fetchall_def seq_def Let_def)
next
  case (Inr cols)
  have "\<exists>items. for_each (column_item (sid @ ''.'' @ quoted (fst row))) cols = Inr items"
    by (rule for_each_total) (rule column_item_total)
  then show ?thesis using Inr
    by (auto simp: columns_ok_def table_item_def get_columns_def fetchall_def seq_def Let_def)
qed

lemma schema_item_cases:
  "(tables_ok src d s \<longrightarrow> (\<exists>item. schema_item src d did s = Inr item)) \<and>
   (\<not> tables_ok src d s \<longrightarrow>
      (\<exists>msg. schema_item src d did s = Inl (DuckDbError msg) \<and> raised_by src msg))"
proof (cases "tables src d s")
  case (Inl msg)
  then have "raised_by src msg" by (auto simp: raised_by_def)
  then show ?thesis using Inl
    by (simp add: tables_ok_def schema_item_def get_tables_def fetchall_def seq_def Let_def)
next
  case (Inr rows)
  have "(list_all (columns_ok src d s) rows \<longrightarrow>
           (\<exists>ys. for_each (table_item src d s (did @ ''.'' @ quoted s)) rows = Inr ys)) \<and>
        (\<not> list_all (columns_ok src d s) rows \<longrightarrow>
           (\<exists>msg. for_each (table_item src d s (did @ ''.'' @ quoted s)) rows = Inl (DuckDbError msg)
                  \<and> raised_by src msg))"
    by (rule for_each_cases) (rule table_item_cases)
  then show ?thesis using Inr
    by (auto simp: tables_ok_def schema_item_def get_tables_def fetchall_def seq_def Let_def)
qed

lemma database_item_cases:
  "(schemas_ok src d \<longrightarrow> (\<exists>item. database_item src d = Inr item)) \<and>
   (\<not> schemas_ok src d \<longrightarrow>
      (\<exists>msg. database_item src d = Inl (DuckDbError msg) \<and> raised_by src msg))"
proof (cases "schemata src d")
  case (Inl msg)
  then have "raised_by src msg" by (auto simp: raised_by_def)
  then show ?thesis using Inl
    by (simp add: schemas_ok_def database_item_def get_schemas_def fetchall_def seq_def Let_def)
next
  case (Inr rows)
  have "(list_all (tables_ok src d) rows \<longrightarrow>
           (\<exists>ys. for_each (schema_item src d (quoted d)) rows = Inr ys)) \<and>
        (\<not> list_all (tables_ok src d) rows \<longrightarrow>
           (\<exists>msg. for_each (schema_item src d (quoted d)) rows = Inl (DuckDbError msg)
                  \<and> raised_by src msg))"
    by (rule for_each_cases) (rule schema_item_cases)
  then show ?thesis using Inr
    by (auto simp: schemas_ok_def database_item_def get_schemas_def fetchall_def seq_def Let_def)
qed

lemma get_catalog_cases:
  "(queries_succeed src \<longrightarrow> (\<exists>catalog. get_catalog src = Inr catalog)) \<and>
   (\<not> queries_succeed src \<longrightarrow>
      (\<exists>msg. get_catalog src = Inl (DuckDbError msg) \<and> raised_by src msg))"
proof (cases "show_databases src")
  case (Inl msg)
  then have "raised_by src msg" by (auto simp: raised_by_def)
  then show ?thesis using Inl
    by (simp add: queries_succeed_def get_catalog_def get_databases_def fetchall_def seq_def)
next
  case (Inr rows)
  have "(list_all (schemas_ok src) rows \<longrightarrow>
           (\<exists>ys. for_each (database_item src) rows = Inr ys)) \<and>
        (\<not> list_all (schemas_ok src) rows \<longrightarrow>
           (\<exists>msg. for_each (database_item src) rows = Inl (DuckDbError msg) \<and> raised_by src msg))"
    by (rule for_each_cases) (rule database_item_cases)
  then show ?thesis using Inr
    by (auto simp: queries_succeed_def get_catalog_def get_databases_def fetchall_def seq_def)
qed

lemma get_catalog_complete:
  "get_catalog src = Inr catalog \<Longrightarrow>
   \<exists>rows. show_databases src = Inr rows \<and>
          list_all2 (\<lambda>d item. database_item src d = Inr item) rows catalog"
  by (auto simp: get_catalog_def get_databases_def fetchall_def seq_def
           split: sum.splits dest: for_each_all2)

text \<open>
  C5, as the code has it. \<open>get_catalog\<close> and the four query methods catch nothing. When every
  query the build issues succeeds, the build returns a catalog with one item for each
  database row, in order, each built in full. When one of them fails, the build returns no
  catalog: the error of the engine leaves the build as it was raised, a \<open>duckdb.Error\<close> with
  the message of a failing query, wrapped in nothing.
\<close>

theorem get_catalog_all_or_nothing:
  "(queries_succeed src \<longrightarrow>
      (\<exists>catalog rows. get_catalog src = Inr catalog \<and> show_databases src = Inr rows \<and>
         list_all2 (\<lambda>d item. database_item src d = Inr item) rows catalog)) \<and>
   (\<not> queries_succeed src \<longrightarrow>
      (\<exists>msg. get_catalog src = Inl (DuckDbError msg) \<and> raised_by src msg))"
proof (intro conjI impI)
  assume "queries_succeed src"
  then obtain catalog where c: "get_catalog src = Inr catalog"
    using get_catalog_cases by blast
  then obtain rows where "show_databases src = Inr rows"
      "list_all2 (\<lambda>d item. database_item src d = Inr item) rows catalog"
    using get_catalog_complete by blast
  then show "\<exists>catalog rows. get_catalog src = Inr catalog \<and> show_databases src = Inr rows \<and>
         list_all2 (\<lambda>d item. database_item src d = Inr item) rows catalog"
    using c by blast
next
  assume "\<not> queries_succeed src"
  then show "\<exists>msg. get_catalog src = Inl (DuckDbError msg) \<and> raised_by src msg"
    using get_catalog_cases by blast
qed


theorem get_catalog_all_or_nothing_witness:
  "get_catalog \<lparr>show_databases = Inr [''memory''],
                schemata = (\<lambda>d. Inl ''boom''),
                tables = (\<lambda>d s. Inr []),
                columns = (\<lambda>d s t. Inr [])\<rparr> = Inl (DuckDbError ''boom'') \<and>
   get_catalog \<lparr>show_databases = Inr [''memory''],
                schemata = (\<lambda>d. Inr []),
                tables = (\<lambda>d s. Inr []),
                columns = (\<lambda>d s t. Inr [])\<rparr>
     = Inr [CatalogItem (quoted ''memory'') (quoted ''memory'') ''memory'' ''db'' []]"
proof -
  let ?bad = "\<lparr>show_databases = Inr [''memory''], schemata = (\<lambda>d. Inl ''boom''),
               tables = (\<lambda>d s. Inr []), columns = (\<lambda>d s t. Inr [])\<rparr>"
  let ?good = "\<lparr>show_databases = Inr [''memory''], schemata = (\<lambda>d. Inr []),
               tables = (\<lambda>d s. Inr []), columns = (\<lambda>d s t. Inr [])\<rparr>"
  have nb: "\<not> queries_succeed ?bad" by (simp add: queries_succeed_def schemas_ok_def)
  have g: "queries_succeed ?good" by (simp add: queries_succeed_def schemas_ok_def)
  have rb: "raised_by ?bad msg \<Longrightarrow> msg = ''boom''" for msg
    by (auto simp: raised_by_def)
  from get_catalog_all_or_nothing [of ?bad] nb
  obtain msg where "get_catalog ?bad = Inl (DuckDbError msg)" "raised_by ?bad msg" by blast
  then have 1: "get_catalog ?bad = Inl (DuckDbError ''boom'')" using rb by blast
  from get_catalog_all_or_nothing [of ?good] g
  obtain catalog rows where c: "get_catalog ?good = Inr catalog" "show_databases ?good = Inr rows"
      "list_all2 (\<lambda>d item. database_item ?good d = Inr item) rows catalog" by blast
  then have "rows = [''memory'']" by simp
  then obtain item where "catalog = [item]" "database_item ?good ''memory'' = Inr item"
    using c(3) by (auto simp: list_all2_Cons1)
  then have 2: "get_catalog ?good
     = Inr [CatalogItem (quoted ''memory'') (quoted ''memory'') ''memory'' ''db'' []]"
    using c(1) by (simp add: database_item_def get_schemas_def fetchall_def seq_def Let_def)
  from 1 2 show ?thesis by (rule conjI)
qed


text \<open>
  C5, as the specification states it, has the failure surface as a connection-level error
  under a fixed title. With a schema listing that fails with the message \<open>boom\<close>, the build
  raises the engine's error with that message, and not a \<open>HarlequinConnectionError\<close>.
\<close>

theorem get_catalog_unwrapped_counterexample:
  "get_catalog \<lparr>show_databases = Inr [''memory''],
                schemata = (\<lambda>d. Inl ''boom''),
                tables = (\<lambda>d s. Inr []),
                columns = (\<lambda>d s t. Inr [])\<rparr> = Inl (DuckDbError ''boom'') \<and>
   (case get_catalog \<lparr>show_databases = Inr [''memory''],
                schemata = (\<lambda>d. Inl ''boom''),
                tables = (\<lambda>d s. Inr []),
                columns = (\<lambda>d s t. Inr [])\<rparr> of
      Inl (HarlequinConnectionError msg title) \<Rightarrow> True
    | Inl other \<Rightarrow> False
    | Inr catalog \<Rightarrow> False) = False"
  by (simp add: get_catalog_def get_databases_def fetchall_def seq_def database_item_def
        get_schemas_def Let_def)


lemma sct_integer: "short_column_type ''INTEGER'' = Inr ''#''"
  by code_simp

lemma sct_varchar_array: "short_column_type ''VARCHAR[]'' = Inr ''[s]''"
  by code_simp

lemma srt_base_table: "short_relation_type ''BASE TABLE'' = ''t''"
  by code_simp

text \<open>
  C6. For a metadata source with one database, one schema and one table of kind
  \<open>BASE TABLE\<close> whose two columns have the native types \<open>INTEGER\<close> and \<open>VARCHAR[]\<close>, the
  build returns a tree of depth 4: one database node labelled \<open>db\<close>, holding one schema node
  labelled \<open>sch\<close>, holding one table node labelled \<open>t\<close>, holding exactly two column leaves
  labelled \<open>#\<close> and \<open>[s]\<close>, in the order in which the column query returned them.
\<close>

theorem get_catalog_one_table:
  "get_catalog (one_table_source d s t c1 c2)
     = Inr [CatalogItem (quoted d) (quoted d) d ''db''
              [CatalogItem (quoted d @ ''.'' @ quoted s) (quoted d @ ''.'' @ quoted s) s ''sch''
                 [CatalogItem (quoted d @ ''.'' @ quoted s @ ''.'' @ quoted t)
                    (quoted d @ ''.'' @ quoted s @ ''.'' @ quoted t) t ''t''
                    [CatalogItem (quoted d @ ''.'' @ quoted s @ ''.'' @ quoted t @ ''.'' @ quoted c1)
                       (quoted c1) c1 ''#'' [],
                     CatalogItem (quoted d @ ''.'' @ quoted s @ ''.'' @ quoted t @ ''.'' @ quoted c2)
                       (quoted c2) c2 ''[s]'' []]]]] \<and>
   (\<exists>catalog. get_catalog (one_table_source d s t c1 c2) = Inr catalog \<and>
      map depth catalog = [4] \<and>
      map type_label catalog = [''db''] \<and>
      map type_label (concat (map children catalog)) = [''sch''] \<and>
      map type_label (concat (map children (concat (map children catalog)))) = [''t''] \<and>
      map type_label (concat (map children (concat (map children (concat (map children catalog))))))
        = [''#'', ''[s]''] \<and>
      map label (concat (map children (concat (map children (concat (map children catalog))))))
        = [c1, c2])"
proof -
  have eq: "get_catalog (one_table_source d s t c1 c2)
     = Inr [CatalogItem (quoted d) (quoted d) d ''db''
              [CatalogItem (quoted d @ ''.'' @ quoted s) (quoted d @ ''.'' @ quoted s) s ''sch''
                 [CatalogItem (quoted d @ ''.'' @ quoted s @ ''.'' @ quoted t)
                    (quoted d @ ''.'' @ quoted s @ ''.'' @ quoted t) t ''t''
                    [CatalogItem (quoted d @ ''.'' @ quoted s @ ''.'' @ quoted t @ ''.'' @ quoted c1)
                       (quoted c1) c1 ''#'' [],
                     CatalogItem (quoted d @ ''.'' @ quoted s @ ''.'' @ quoted t @ ''.'' @ quoted c2)
                       (quoted c2) c2 ''[s]'' []]]]]"
    by (simp add: get_catalog_def get_databases_def get_schemas_def get_tables_def
          get_columns_def fetchall_def seq_def database_item_def schema_item_def table_item_def
          column_item_def one_table_source_def sct_integer sct_varchar_array srt_base_table
          Let_def)
  show ?thesis
    unfolding eq by simp
qed

section \<open>Session bootstrap\<close>

lemma exec_statements_filter:
  "exec_statements execute cmds connection count
     = exec_statements execute (filter (\<lambda>cmd. strip cmd \<noteq> []) cmds) connection count"
  by (induction cmds arbitrary: connection count) (auto split: prod.splits option.splits)

lemma exec_statements_append:
  "exec_statements execute (xs @ ys) connection count
     = (case exec_statements execute xs connection count of
          (Some x, connection', count') \<Rightarrow> (Some x, connection', count')
        | (None, connection', count') \<Rightarrow> exec_statements execute ys connection' count')"
  by (induction xs arbitrary: connection count) (auto split: prod.splits option.splits)

lemma rewrite_rewritten: "rewrite_init_command command = Inr (rewritten command)"
  using rewrite_init_command_total [of command] by (auto simp: rewritten_def)

lemma run_commands_flat:
  "run_commands execute commands connection count
     = exec_statements execute (concat (map statements_of commands)) connection count"
proof (induction commands arbitrary: connection count)
  case Nil
  then show ?case by simp
next
  case (Cons command commands)
  have "exec_statements execute (split_on (CHR '';'') (rewritten command)) connection count
        = exec_statements execute (statements_of command) connection count"
    unfolding statements_of_def by (rule exec_statements_filter)
  then show ?case
    using Cons
    by (simp add: rewrite_rewritten exec_statements_append split: prod.splits option.splits)
qed

lemma statements_of_nonblank: "cmd \<in> set (statements_of command) \<Longrightarrow> strip cmd \<noteq> []"
  by (simp add: statements_of_def)

lemma submitted_nonblank: "cmd \<in> set (submitted script) \<Longrightarrow> strip cmd \<noteq> []"
  by (auto simp: submitted_def dest: statements_of_nonblank)

lemma exec_all_succeed:
  "\<forall>cmd\<in>set stmts. strip cmd \<noteq> [] \<Longrightarrow> all_succeed execute stmts connection \<Longrightarrow>
   exec_statements execute stmts connection count
     = (None, state_after execute stmts connection, count + length stmts)"
  by (induction stmts arbitrary: connection count) (auto split: prod.splits option.splits)

lemma exec_first_failure:
  assumes "\<forall>cmd\<in>set pre. strip cmd \<noteq> []" "strip s \<noteq> []"
      and "all_succeed execute pre connection"
      and "execute (state_after execute pre connection) s = (Some e, connection')"
  shows "exec_statements execute (pre @ s # post) connection count
           = (Some (DuckDbError e), connection', count + length pre)"
  using assms exec_all_succeed [of pre execute connection count]
  by (simp add: exec_statements_append)

lemma submitted_script_nonempty: "submitted script \<noteq> [] \<Longrightarrow> \<exists>c cs. script = c # cs"
proof (cases script)
  case Nil
  assume "submitted script \<noteq> []"
  moreover have "split_script [] = []"
    by (simp add: split_script_emit splitlines.simps [of "[]"])
  ultimately show ?thesis using Nil by (simp add: submitted_def)
next
  case (Cons c cs)
  then show ?thesis by blast
qed

text \<open>
  C4. The bootstrap executes, in script order, the statements of the script: for each command
  of the splitter, in order, the pieces of the rewritten command between \<open>;\<close> whose trimmed
  form is not empty. When all of them succeed, the session is in the state they leave one
  after the other and the message counts them. When one fails, the statements before it
  have been executed and none after it is: the bootstrap raises a
  \<open>HarlequinConnectionError\<close> whose message ends with the message of the engine, and the
  session is left in the state the failing statement found and left, the earlier statements
  not undone. With \<open>no_init\<close> nothing is executed.
\<close>

theorem connect_init_in_order:
  "(all_succeed execute (submitted script) connection \<longrightarrow>
      connect_init execute init_path False script connection
        = (Inr \<lparr>conn = state_after execute (submitted script) connection,
                 init_message = executed_message (length (submitted script)) init_path\<rparr>,
           state_after execute (submitted script) connection)) \<and>
   (\<forall>pre s post e connection'.
      submitted script = pre @ s # post \<and> all_succeed execute pre connection \<and>
      execute (state_after execute pre connection) s = (Some e, connection') \<longrightarrow>
      (\<exists>c. py_nth script 0 = Inr c \<and>
           connect_init execute init_path False script connection
             = (Inl (HarlequinConnectionError
                       (''Attempted to execute script at '' @ [c] @ nl @ e)
                       ''DuckDB could not execute your initialization script.''),
                connection'))) \<and>
   connect_init execute init_path True script connection
     = (Inr \<lparr>conn = connection, init_message = []\<rparr>, connection)"
proof (intro conjI impI allI)
  assume "all_succeed execute (submitted script) connection"
  then have "run_commands execute (split_script script) connection 0
        = (None, state_after execute (submitted script) connection, length (submitted script))"
    using exec_all_succeed [of "submitted script" execute connection 0] submitted_nonblank
    by (simp add: run_commands_flat submitted_def [symmetric])
  then show "connect_init execute init_path False script connection
        = (Inr \<lparr>conn = state_after execute (submitted script) connection,
                 init_message = executed_message (length (submitted script)) init_path\<rparr>,
           state_after execute (submitted script) connection)"
    by (simp add: connect_init_def)
next
  fix pre s post e connection'
  assume a: "submitted script = pre @ s # post \<and> all_succeed execute pre connection \<and>
      execute (state_after execute pre connection) s = (Some e, connection')"
  then have nb: "\<forall>cmd\<in>set pre. strip cmd \<noteq> []" "strip s \<noteq> []"
    using submitted_nonblank [of _ script] by auto
  have "exec_statements execute (pre @ s # post) connection 0
           = (Some (DuckDbError e), connection', 0 + length pre)"
    using nb a by (intro exec_first_failure) simp_all
  then have run: "run_commands execute (split_script script) connection 0
        = (Some (DuckDbError e), connection', length pre)"
    using a by (simp add: run_commands_flat submitted_def [symmetric])
  have "submitted script \<noteq> []" using a by simp
  then obtain c cs where sc: "script = c # cs" using submitted_script_nonempty by blast
  then have c: "py_nth script 0 = Inr c" by (simp add: py_nth_def)
  show "\<exists>c. py_nth script 0 = Inr c \<and>
           connect_init execute init_path False script connection
             = (Inl (HarlequinConnectionError
                       (''Attempted to execute script at '' @ [c] @ nl @ e)
                       ''DuckDB could not execute your initialization script.''),
                connection')"
    using c run by (simp add: connect_init_def)
next
  show "connect_init execute init_path True script connection
     = (Inr \<lparr>conn = connection, init_message = []\<rparr>, connection)"
    by (simp add: connect_init_def)
qed

theorem connect_init_in_order_witness:
  "connect_init (\<lambda>log cmd. (if cmd = '' bad'' then Some ''boom'' else None, log @ [cmd]))
     ''/home/u/.duckdbrc'' False ''select 1; bad; select 2'' []
     = (Inl (HarlequinConnectionError (''Attempted to execute script at s'' @ nl @ ''boom'')
               ''DuckDB could not execute your initialization script.''),
        [''select 1'', '' bad'']) \<and>
   connect_init (\<lambda>log cmd. (if cmd = '' bad'' then Some ''boom'' else None, log @ [cmd]))
     ''/home/u/.duckdbrc'' False ''select 1; select 2\<newline>.help'' []
     = (Inr \<lparr>conn = [''select 1'', '' select 2''],
              init_message = ''Executed 2 commands from /home/u/.duckdbrc''\<rparr>,
        [''select 1'', '' select 2''])"
proof -
  let ?ex = "\<lambda>log cmd. (if cmd = '' bad'' then Some ''boom'' else None, log @ [cmd])"
  have s1: "submitted ''select 1; bad; select 2'' = [''select 1''] @ '' bad'' # ['' select 2'']"
    by code_simp
  have s2: "submitted ''select 1; select 2\<newline>.help'' = [''select 1'', '' select 2'']"
    by code_simp
  have m: "executed_message 2 ''/home/u/.duckdbrc'' = ''Executed 2 commands from /home/u/.duckdbrc''"
    by code_simp
  have f: "submitted ''select 1; bad; select 2'' = [''select 1''] @ '' bad'' # ['' select 2''] \<and>
        all_succeed ?ex [''select 1''] [] \<and>
        ?ex (state_after ?ex [''select 1''] []) '' bad'' = (Some ''boom'', [''select 1'', '' bad''])"
    using s1 by simp
  from connect_init_in_order [of ?ex "''select 1; bad; select 2''" "[]" "''/home/u/.duckdbrc''"] f
  obtain c where "py_nth ''select 1; bad; select 2'' 0 = Inr c"
    "connect_init ?ex ''/home/u/.duckdbrc'' False ''select 1; bad; select 2'' []
       = (Inl (HarlequinConnectionError (''Attempted to execute script at '' @ [c] @ nl @ ''boom'')
               ''DuckDB could not execute your initialization script.''),
          [''select 1'', '' bad''])"
    by blast
  then have 1: "connect_init ?ex ''/home/u/.duckdbrc'' False ''select 1; bad; select 2'' []
     = (Inl (HarlequinConnectionError (''Attempted to execute script at s'' @ nl @ ''boom'')
               ''DuckDB could not execute your initialization script.''),
        [''select 1'', '' bad''])"
    by (simp add: py_nth_def)
  have g: "all_succeed ?ex (submitted ''select 1; select 2\<newline>.help'') []"
    unfolding s2 by simp
  have m2: "executed_message (Suc (Suc 0)) ''/home/u/.duckdbrc''
              = ''Executed 2 commands from /home/u/.duckdbrc''"
    using m by (simp add: numeral_2_eq_2)
  have "connect_init ?ex ''/home/u/.duckdbrc'' False ''select 1; select 2\<newline>.help'' []
     = (Inr \<lparr>conn = state_after ?ex (submitted ''select 1; select 2\<newline>.help'') [],
              init_message = executed_message (length (submitted ''select 1; select 2\<newline>.help''))
                               ''/home/u/.duckdbrc''\<rparr>,
        state_after ?ex (submitted ''select 1; select 2\<newline>.help'') [])"
    by (rule mp [OF conjunct1 [OF connect_init_in_order] g])
  then have 2: "connect_init ?ex ''/home/u/.duckdbrc'' False ''select 1; select 2\<newline>.help'' []
     = (Inr \<lparr>conn = [''select 1'', '' select 2''],
              init_message = ''Executed 2 commands from /home/u/.duckdbrc''\<rparr>,
        [''select 1'', '' select 2''])"
    unfolding s2 by (simp add: m2)
  from 1 2 show ?thesis by (rule conjI)
qed


section \<open>What the bootstrap submits for a meta-command\<close>

lemma set_split_on: "x \<in> set (split_on sep s) \<Longrightarrow> set x \<subseteq> set s"
proof (induction s arbitrary: x)
  case Nil
  then show ?case by simp
next
  case (Cons c cs)
  obtain w ws where w: "split_on sep cs = w # ws"
    using split_on_nonempty [of sep cs] by (cases "split_on sep cs") auto
  show ?case
  proof (cases "c = sep")
    case True
    then show ?thesis using Cons by auto
  next
    case False
    have w_sub: "set w \<subseteq> set cs" using Cons.IH [of w] w by simp
    have ws_sub: "set y \<subseteq> set cs" if "y \<in> set ws" for y
      using Cons.IH [of y] w that by simp
    from False have "x = c # w \<or> x \<in> set ws" using Cons.prems w by simp
    then show ?thesis
    proof
      assume "x = c # w"
      then show ?thesis using w_sub by auto
    next
      assume "x \<in> set ws"
      then show ?thesis using ws_sub by fastforce
    qed
  qed
qed

lemma set_split_ws: "x \<in> set (split_ws s) \<Longrightarrow> set x \<subseteq> set s"
proof (induction s arbitrary: x rule: split_ws.induct)
  case (1 s)
  let ?s' = "dropWhile is_space s"
  show ?case
  proof (cases "?s' = []")
    case True
    then have "split_ws s = []" by (subst split_ws.simps) (simp del: dropWhile_eq_Nil_conv)
    then show ?thesis using "1.prems" by simp
  next
    case False
    then have sw: "split_ws s = takeWhile (\<lambda>c. \<not> is_space c) ?s'
                     # split_ws (dropWhile (\<lambda>c. \<not> is_space c) ?s')"
      by (subst split_ws.simps) (simp add: Let_def del: dropWhile_eq_Nil_conv)
    have sub1: "set ?s' \<subseteq> set s" by (auto dest: set_dropWhileD)
    have sub2: "set (takeWhile (\<lambda>c. \<not> is_space c) ?s') \<subseteq> set ?s'"
      by (auto dest: set_takeWhileD)
    have sub3: "set (dropWhile (\<lambda>c. \<not> is_space c) ?s') \<subseteq> set ?s'"
      by (auto dest: set_dropWhileD)
    from "1.prems" sw consider "x = takeWhile (\<lambda>c. \<not> is_space c) ?s'"
      | "x \<in> set (split_ws (dropWhile (\<lambda>c. \<not> is_space c) ?s'))" by auto
    then show ?thesis
    proof cases
      case 1
      then show ?thesis using sub1 sub2 by blast
    next
      case 2
      then have "set x \<subseteq> set (dropWhile (\<lambda>c. \<not> is_space c) ?s')"
        using "1.IH" [OF refl False] by blast
      then show ?thesis using sub1 sub3 by blast
    qed
  qed
qed

lemma set_join: "set (join sep xs) \<subseteq> set sep \<union> \<Union> (set ` set xs)"
  by (induction sep xs rule: join.induct) auto

lemma set_path_parts: "x \<in> set (path_parts p) \<Longrightarrow> set x \<subseteq> set p"
proof -
  assume "x \<in> set (path_parts p)"
  then have "x \<in> set (split_on (CHR ''/'') (snd (splitroot p)))"
    by (simp add: path_parts_def)
  then have "set x \<subseteq> set (snd (splitroot p))" by (rule set_split_on)
  moreover have "set (snd (splitroot p)) \<subseteq> set p"
    by (auto simp: splitroot_def dest: in_set_dropD)
  ultimately show ?thesis by blast
qed

lemma set_Path_str: "set (Path_str p) \<subseteq> set p \<union> {CHR ''.'', CHR ''/''}"
proof -
  have "set (fst (splitroot p)) \<subseteq> set p \<union> {CHR ''/''}"
    by (auto simp: splitroot_def dest: in_set_takeD)
  moreover have "set (join ''/'' (path_parts p)) \<subseteq> set p \<union> {CHR ''/''}"
    using set_join [of "''/''" "path_parts p"] set_path_parts [of _ p] by auto
  ultimately show ?thesis by (auto simp: Path_str_def Let_def)
qed

lemma set_Path_stem: "set (Path_stem p) \<subseteq> set p"
proof -
  have "set (Path_name p) \<subseteq> set p"
    using set_path_parts [of "last (path_parts p)" p]
    by (auto simp: Path_name_def Let_def)
  moreover have "set (Path_stem p) \<subseteq> set (Path_name p)"
    by (auto simp: Path_stem_def Let_def dest: in_set_takeD)
  ultimately show ?thesis by blast
qed

lemma split_on_append_sep:
  "sep \<notin> set a \<Longrightarrow> split_on sep (a @ sep # b) = a # split_on sep b"
  by (induction a) auto

lemma split_on_no_sep_last: "sep \<notin> set a \<Longrightarrow> split_on sep (a @ [sep]) = [a, []]"
  by (induction a) auto

lemma rewrite_dot_open_forms:
  "rewrite_dot_open command = Inr (''attach '' @ sq @ '':memory:'' @ sq @ ''; use memory;'') \<or>
   (\<exists>p opt. p \<in> set (split_ws command) \<and> (opt = [] \<or> opt = '' (READ_ONLY)'') \<and>
      rewrite_dot_open command = Inr (attach_sql opt p))"
proof (cases "drop 1 (split_ws command)")
  case Nil
  then show ?thesis by (simp add: rewrite_dot_open_none)
next
  case (Cons p rest)
  have mem: "set (drop 1 (split_ws command)) \<subseteq> set (split_ws command)"
    by (rule set_drop_subset)
  show ?thesis
  proof (cases "p = ''--readonly'' \<and> length rest = 1")
    case True
    then obtain q where q: "rest = [q]" by (cases rest) auto
    then have "rewrite_dot_open command = Inr (attach_sql '' (READ_ONLY)'' q)"
      using Cons True by (simp add: rewrite_dot_open_readonly)
    moreover have "q \<in> set (split_ws command)" using mem Cons q by auto
    ultimately show ?thesis by blast
  next
    case False
    then have "rewrite_dot_open command = Inr (attach_sql [] p)"
      using Cons rewrite_dot_open_path by blast
    moreover have "p \<in> set (split_ws command)" using mem Cons by auto
    ultimately show ?thesis by blast
  qed
qed

lemma strip_nonblank: "c \<in> set s \<Longrightarrow> \<not> is_space c \<Longrightarrow> strip s \<noteq> []"
  by (auto simp: strip_eq_Nil)

lemma statements_of_attach_sql:
  assumes "CHR '';'' \<notin> set p" "opt = [] \<or> opt = '' (READ_ONLY)''"
  shows "filter (\<lambda>cmd. strip cmd \<noteq> []) (split_on (CHR '';'') (attach_sql opt p))
           = [''attach '' @ sq @ Path_str p @ sq @ opt @ '' as '' @ Path_stem p,
              '' use '' @ Path_stem p]"
proof -
  let ?A = "''attach '' @ sq @ Path_str p @ sq @ opt @ '' as '' @ Path_stem p"
  let ?B = "'' use '' @ Path_stem p"
  have ps: "CHR '';'' \<notin> set (Path_str p)" using set_Path_str [of p] assms(1) by auto
  have pt: "CHR '';'' \<notin> set (Path_stem p)" using set_Path_stem [of p] assms(1) by auto
  have a: "CHR '';'' \<notin> set ?A" using ps pt assms(2) by (auto simp: sq_def)
  have b: "CHR '';'' \<notin> set ?B" using pt by auto
  have "attach_sql opt p = ?A @ CHR '';'' # (?B @ [CHR '';''])"
    by (simp add: attach_sql_def)
  then have "split_on (CHR '';'') (attach_sql opt p) = ?A # split_on (CHR '';'') (?B @ [CHR '';''])"
    using split_on_append_sep [OF a] by simp
  also have "\<dots> = [?A, ?B, []]" using split_on_no_sep_last [OF b] by simp
  finally have sp: "split_on (CHR '';'') (attach_sql opt p) = [?A, ?B, []]" .
  have na: "strip ?A \<noteq> []"
    by (rule strip_nonblank [of "CHR ''a''"]) (simp_all add: is_space_def)
  have nb: "strip ?B \<noteq> []"
    by (rule strip_nonblank [of "CHR ''u''"]) (simp_all add: is_space_def)
  have ne: "strip [] = []" by (simp add: strip_def)
  show ?thesis unfolding sp using na nb ne by simp
qed

lemma statements_of_memory:
  "filter (\<lambda>cmd. strip cmd \<noteq> [])
     (split_on (CHR '';'') (''attach '' @ sq @ '':memory:'' @ sq @ ''; use memory;''))
   = [''attach '' @ sq @ '':memory:'' @ sq, '' use memory'']"
  by code_simp

lemma statements_of_head:
  assumes "startswith r ''attach ''"
  shows "\<exists>first rest. filter (\<lambda>cmd. strip cmd \<noteq> []) (split_on (CHR '';'') r) = first # rest
           \<and> startswith first ''attach ''"
proof -
  from assms obtain t where r: "r = ''attach '' @ t" by (auto simp: startswith_append)
  obtain w ws where w: "split_on (CHR '';'') r = w # ws"
    using split_on_nonempty [of "CHR '';''" r] by (cases "split_on (CHR '';'') r") auto
  have "w = takeWhile (\<lambda>c. c \<noteq> CHR '';'') r"
    using hd_split_on [of "CHR '';''" r] w by simp
  then have w': "w = ''attach '' @ takeWhile (\<lambda>c. c \<noteq> CHR '';'') t"
    unfolding r by simp
  then have "strip w \<noteq> []"
    by (intro strip_nonblank [of "CHR ''a''"]) (simp_all add: is_space_def)
  then have "filter (\<lambda>cmd. strip cmd \<noteq> []) (split_on (CHR '';'') r)
               = w # filter (\<lambda>cmd. strip cmd \<noteq> []) ws"
    using w by simp
  moreover have "startswith w ''attach ''" using w' by (simp add: startswith_def)
  ultimately show ?thesis by blast
qed

lemma dot_rewritten:
  assumes "startswith command ''.''"
  shows "rewritten command = [] \<or> startswith (rewritten command) ''attach ''"
proof (cases "startswith command ''.open''")
  case True
  obtain r where "rewrite_dot_open command = Inr r" "startswith r ''attach ''"
    using rewrite_dot_open_attach by blast
  then show ?thesis using assms True by (simp add: rewritten_def rewrite_init_command_def)
next
  case False
  then show ?thesis using assms by (simp add: rewritten_def rewrite_init_command_def)
qed

lemma attach_not_dot: "startswith r ''attach '' \<Longrightarrow> \<not> startswith r ''.''"
  by (auto simp: startswith_append)

text \<open>
  C9, as the code has it. For every command that starts with \<open>.\<close>, the rewritten command is
  the empty string or begins with \<open>attach\<close>, and so does not start with \<open>.\<close>. The bootstrap
  executes the pieces of the rewritten command between \<open>;\<close>: the first statement it submits
  for the command, if there is one, begins with \<open>attach\<close>; and when the command contains no
  \<open>;\<close>, no statement submitted for it starts with \<open>.\<close>.
\<close>

theorem meta_command_never_submitted_verbatim:
  "startswith command ''.'' \<longrightarrow>
     (\<exists>r. rewrite_init_command command = Inr r \<and> (r = [] \<or> startswith r ''attach '') \<and>
          \<not> startswith r ''.'') \<and>
     (statements_of command = [] \<or>
        (\<exists>first rest. statements_of command = first # rest \<and> startswith first ''attach '')) \<and>
     (CHR '';'' \<notin> set command \<longrightarrow> (\<forall>stmt\<in>set (statements_of command). \<not> startswith stmt ''.''))"
proof (intro impI conjI)
  assume dot: "startswith command ''.''"
  have r: "rewritten command = [] \<or> startswith (rewritten command) ''attach ''"
    using dot by (rule dot_rewritten)
  then have "\<not> startswith (rewritten command) ''.''"
    using attach_not_dot by (auto simp: startswith_def)
  then show "\<exists>r. rewrite_init_command command = Inr r \<and> (r = [] \<or> startswith r ''attach '') \<and>
          \<not> startswith r ''.''"
    using r rewrite_rewritten by blast
  show "statements_of command = [] \<or>
        (\<exists>first rest. statements_of command = first # rest \<and> startswith first ''attach '')"
    using r
  proof
    assume "rewritten command = []"
    then have "statements_of command = []" by (simp add: statements_of_def strip_def)
    then show ?thesis by simp
  next
    assume "startswith (rewritten command) ''attach ''"
    then show ?thesis unfolding statements_of_def using statements_of_head by blast
  qed
next
  assume dot: "startswith command ''.''" and nosemi: "CHR '';'' \<notin> set command"
  show "\<forall>stmt\<in>set (statements_of command). \<not> startswith stmt ''.''"
  proof (cases "startswith command ''.open''")
    case False
    then have "rewritten command = []"
      using dot by (simp add: rewritten_def rewrite_init_command_def)
    then have "statements_of command = []" by (simp add: statements_of_def strip_def)
    then show ?thesis by simp
  next
    case True
    then have rw: "rewrite_dot_open command = Inr (rewritten command)"
      using dot rewrite_rewritten [of command] by (simp add: rewrite_init_command_def)
    from rewrite_dot_open_forms [of command]
    show ?thesis
    proof
      assume "rewrite_dot_open command
                = Inr (''attach '' @ sq @ '':memory:'' @ sq @ ''; use memory;'')"
      then have "rewritten command = ''attach '' @ sq @ '':memory:'' @ sq @ ''; use memory;''"
        using rw by simp
      then have "statements_of command = [''attach '' @ sq @ '':memory:'' @ sq, '' use memory'']"
        unfolding statements_of_def using statements_of_memory by simp
      then show ?thesis by (simp add: startswith_def)
    next
      assume "\<exists>p opt. p \<in> set (split_ws command) \<and> (opt = [] \<or> opt = '' (READ_ONLY)'') \<and>
                rewrite_dot_open command = Inr (attach_sql opt p)"
      then obtain p opt where p: "p \<in> set (split_ws command)"
          and opt: "opt = [] \<or> opt = '' (READ_ONLY)''"
          and eq: "rewrite_dot_open command = Inr (attach_sql opt p)" by blast
      have "set p \<subseteq> set command" using p by (rule set_split_ws)
      then have np: "CHR '';'' \<notin> set p" using nosemi by blast
      have "rewritten command = attach_sql opt p" using rw eq by simp
      then have "statements_of command
                   = [''attach '' @ sq @ Path_str p @ sq @ opt @ '' as '' @ Path_stem p,
                      '' use '' @ Path_stem p]"
        unfolding statements_of_def using statements_of_attach_sql [OF np opt] by simp
      then show ?thesis by (simp add: startswith_def)
    qed
  qed
qed


theorem meta_command_never_submitted_verbatim_witness:
  "rewrite_init_command ''.open --readonly mydata.db''
     = Inr (''attach '' @ sq @ ''mydata.db'' @ sq @ '' (READ_ONLY) as mydata; use mydata;'') \<and>
   statements_of ''.open --readonly mydata.db''
     = [''attach '' @ sq @ ''mydata.db'' @ sq @ '' (READ_ONLY) as mydata'', '' use mydata''] \<and>
   \<not> startswith (''attach '' @ sq @ ''mydata.db'' @ sq @ '' (READ_ONLY) as mydata'') ''.'' \<and>
   \<not> startswith '' use mydata'' ''.''"
proof -
  have d: "startswith ''.open --readonly mydata.db'' ''.''" by (simp add: startswith_def)
  have n: "CHR '';'' \<notin> set ''.open --readonly mydata.db''" by simp
  have r: "rewrite_init_command ''.open --readonly mydata.db''
     = Inr (''attach '' @ sq @ ''mydata.db'' @ sq @ '' (READ_ONLY) as mydata; use mydata;'')"
    by code_simp
  have s: "statements_of ''.open --readonly mydata.db''
     = [''attach '' @ sq @ ''mydata.db'' @ sq @ '' (READ_ONLY) as mydata'', '' use mydata'']"
    by code_simp
  have "\<forall>stmt\<in>set (statements_of ''.open --readonly mydata.db''). \<not> startswith stmt ''.''"
    using meta_command_never_submitted_verbatim [of "''.open --readonly mydata.db''"] d n
    by blast
  then have "\<not> startswith (''attach '' @ sq @ ''mydata.db'' @ sq @ '' (READ_ONLY) as mydata'') ''.'' \<and>
             \<not> startswith '' use mydata'' ''.''"
    unfolding s by simp
  then show ?thesis using r s by (intro conjI) simp_all
qed


text \<open>
  C9, as the specification states it, concludes that no meta-command text ever reaches the
  engine. The rewritten command is cut at \<open>;\<close> before it is executed, and the path is copied
  into it as it is: for the script line \<open>.open x';.open\<close> the second statement submitted is
  \<open>.open' as x'\<close>, which starts with \<open>.\<close>.
\<close>

theorem meta_command_fragment_counterexample:
  "startswith (''.open x'' @ sq @ '';.open'') ''.'' \<and>
   split_script (''.open x'' @ sq @ '';.open'') = [''.open x'' @ sq @ '';.open''] \<and>
   rewrite_init_command (''.open x'' @ sq @ '';.open'')
     = Inr (''attach '' @ sq @ ''x'' @ sq @ '';.open'' @ sq @ '' as x'' @ sq @ '';; use x'' @ sq @ '';;'') \<and>
   submitted (''.open x'' @ sq @ '';.open'')
     = [''attach '' @ sq @ ''x'' @ sq, ''.open'' @ sq @ '' as x'' @ sq, '' use x'' @ sq] \<and>
   startswith (''.open'' @ sq @ '' as x'' @ sq) ''.''"
proof -
  have 1: "startswith (''.open x'' @ sq @ '';.open'') ''.''" by (simp add: startswith_def)
  have 2: "split_script (''.open x'' @ sq @ '';.open'') = [''.open x'' @ sq @ '';.open'']"
    by code_simp
  have 3: "rewrite_init_command (''.open x'' @ sq @ '';.open'')
     = Inr (''attach '' @ sq @ ''x'' @ sq @ '';.open'' @ sq @ '' as x'' @ sq @ '';; use x'' @ sq @ '';;'')"
    by code_simp
  have 4: "submitted (''.open x'' @ sq @ '';.open'')
     = [''attach '' @ sq @ ''x'' @ sq, ''.open'' @ sq @ '' as x'' @ sq, '' use x'' @ sq]"
    by code_simp
  have 5: "startswith (''.open'' @ sq @ '' as x'' @ sq) ''.''" by (simp add: startswith_def)
  from 1 2 3 4 5 show ?thesis by (intro conjI)
qed

end
